theory Spec2Isabelle
  imports Main "HOL-Library.AList" "HOL-Library.Sublist"
begin

section \<open>Study competition bot: data model\<close>

text \<open>
  The development embeds \<^verbatim>\<open>study_bot.py\<close>: the file database (\<^verbatim>\<open>FileSystemDB\<close>),
  the session object (\<^verbatim>\<open>PomodoroSession\<close>) and the \<^verbatim>\<open>/pomodoro\<close> command.

  A \<^verbatim>\<open>datetime\<close> value is kept as its position on the time line in microseconds
  (the resolution of \<^verbatim>\<open>datetime\<close>) together with the calendar fields the program reads
  (\<^verbatim>\<open>.year\<close>, \<^verbatim>\<open>.month\<close>, \<^verbatim>\<open>.day\<close> and the fields printed by \<^verbatim>\<open>strftime\<close>).
  The calendar arithmetic of the standard library that relates the two is not modelled:
  differences and comparisons use the time line, file names use the calendar fields.
\<close>

record datetime =
  usec :: int
  dt_year :: nat
  dt_month :: nat
  dt_day :: nat
  dt_hour :: nat
  dt_minute :: nat
  dt_second :: nat

text \<open>A guild member as the program reads it: id, name, the bot flag and the role names.\<close>

record member =
  member_id :: nat
  member_name :: string
  bot :: bool
  roles :: "string list"

record channel =
  channel_id :: nat
  channel_name :: string

text \<open>The values of the dictionary \<^verbatim>\<open>self.participants\<close>.\<close>

record participant =
  user :: member
  organization :: string
  join_time :: datetime
  late_join :: bool

definition ORGANIZATIONS :: "string list" where
  "ORGANIZATIONS = [''Wina'', ''VTK'', ''Atmosphere'', ''Chemica'', ''BIOS'',
                    ''Atlas'', ''Politeia'', ''VRG'', ''Ekonomika'', ''Medica'']"

section \<open>Credit accountant\<close>

text \<open>
  \<^verbatim>\<open>int(td.total_seconds() / 60)\<close> for a time difference of \<open>d\<close> microseconds:
  the quotient by one minute, truncated toward zero as \<^verbatim>\<open>int\<close> does. The
  floating-point quotient is taken as the exact one (the two agree after truncation for
  every difference below 2^53 microseconds).
\<close>

definition whole_minutes :: "int \<Rightarrow> int" where
  "whole_minutes d = (if 0 \<le> d then d div 60000000 else - ((- d) div 60000000))"

text \<open>
  Exceptions: \<^verbatim>\<open>TypeError\<close>, and \<^verbatim>\<open>HTTPException\<close> for a failure of an awaited
  call of the chat library (a message sent or edited, an interaction deferred).
\<close>

datatype exn = TypeError | HTTPException

text \<open>
  The computation of \<^verbatim>\<open>minutes_to_award\<close> in the loop of \<^verbatim>\<open>award_credit\<close>,
  for a participant found in the current snapshot. \<^verbatim>\<open>self.session_start\<close> is
  \<^verbatim>\<open>None\<close> until \<^verbatim>\<open>start\<close> assigns it; subtracting \<^verbatim>\<open>None\<close> from a
  \<^verbatim>\<open>datetime\<close> raises \<^verbatim>\<open>TypeError\<close>.
\<close>

definition minutes_to_award ::
  "int \<Rightarrow> datetime option \<Rightarrow> datetime \<Rightarrow> participant \<Rightarrow> exn + int" where
  "minutes_to_award duration session_start study_end data =
     (let time_in_session = usec study_end - usec (join_time data);
          minutes = min (whole_minutes time_in_session) duration
      in if late_join data
         then (case session_start of
                 None \<Rightarrow> Inl TypeError
               | Some t0 \<Rightarrow>
                   (let session_elapsed = usec (join_time data) - usec t0;
                        max_possible = max 0 (duration - whole_minutes session_elapsed)
                    in Inr (min minutes max_possible)))
         else Inr minutes)"

section \<open>String formatting\<close>

text \<open>
  \<^verbatim>\<open>str(n)\<close> of a non-negative integer, the format \<^verbatim>\<open>{n:02d}\<close>, and the two
  \<^verbatim>\<open>strftime\<close> patterns of the program, \<^verbatim>\<open>%Y%m%d_%H%M%S\<close> and \<^verbatim>\<open>%Y-%m\<close>
  (\<^verbatim>\<open>%Y\<close> prints the year without padding, as it does for every year from 1000 on).
\<close>

definition digit_char :: "nat \<Rightarrow> char" where
  "digit_char d = ''0123456789'' ! d"

fun str_nat :: "nat \<Rightarrow> string" where
  "str_nat n = (if n < 10 then [digit_char n]
                else str_nat (n div 10) @ [digit_char (n mod 10)])"

declare str_nat.simps [simp del]

definition pad2 :: "nat \<Rightarrow> string" where
  "pad2 n = (if n < 10 then CHR ''0'' # str_nat n else str_nat n)"

definition date_stamp :: "datetime \<Rightarrow> string" where
  "date_stamp t = str_nat (dt_year t) @ pad2 (dt_month t) @ pad2 (dt_day t)"

definition time_stamp :: "datetime \<Rightarrow> string" where
  "time_stamp t = pad2 (dt_hour t) @ pad2 (dt_minute t) @ pad2 (dt_second t)"

definition strftime_stamp :: "datetime \<Rightarrow> string" where
  "strftime_stamp t = date_stamp t @ ''_'' @ time_stamp t"

text \<open>
  The month identifier \<^verbatim>\<open>strftime("%Y-%m")\<close> is carried as the pair (year, month) it
  prints; \<^verbatim>\<open>get_user_monthly_total\<close> recovers exactly this pair with
  \<^verbatim>\<open>split("-")\<close> and \<^verbatim>\<open>int\<close>. \<open>month_key\<close> is the printed form, used in file names.
\<close>

type_synonym month_id = "nat \<times> nat"

definition month_key :: "month_id \<Rightarrow> string" where
  "month_key mid = str_nat (fst mid) @ ''-'' @ pad2 (snd mid)"

section \<open>The file database\<close>

text \<open>The dictionary pickled by \<^verbatim>\<open>save_study_session\<close>.\<close>

record session_doc =
  doc_user_id :: string
  doc_username :: string
  doc_organization :: string
  doc_session_start :: datetime
  doc_session_end :: datetime
  duration_minutes :: int
  doc_month :: nat
  doc_year :: nat
  doc_channel_name :: string
  doc_late_join :: bool
  completed :: bool

text \<open>An entry of \<^verbatim>\<open>top_individuals\<close> and the monthly statistics dictionary.\<close>

record individual =
  ind_user_id :: string
  ind_username :: string
  ind_org :: string
  ind_minutes :: int

record stats =
  stats_id :: string
  organizations :: "string \<rightharpoonup> int"
  top_individuals :: "individual list"
  last_updated :: datetime

text \<open>A file holds a pickled value, or bytes that \<^verbatim>\<open>pickle.load\<close> rejects.\<close>

datatype 'a stored = Pickled 'a | Corrupt

text \<open>
  The two directories of the database and the global dictionary \<^verbatim>\<open>active_sessions\<close>
  (the values of the dictionary are reduced to the study and break durations of the
  session object).
\<close>

type_synonym session_files = "(string \<times> session_doc stored) list"

type_synonym monthly_files = "string \<rightharpoonup> stats stored"

type_synonym registry = "nat \<rightharpoonup> int \<times> int"

text \<open>
  An attempt to write a file, \<^verbatim>\<open>with open(path, 'wb') as f: pickle.dump(data, f)\<close>:
  it succeeds, or \<^verbatim>\<open>open\<close> fails and the file is as it was, or the file is opened,
  which truncates it, and the dump fails, which leaves bytes that cannot be unpickled.
\<close>

datatype write_outcome = Written | OpenFailed | DumpFailed

text \<open>
  What happens while a task is suspended: the occupants of a voice channel change, the
  ten-second sleep of the late-joiner monitor ends, or another task (another command,
  another session) runs and changes the database and the registry.
\<close>

datatype event =
    Presence nat "member list"
  | MonitorWake
  | Elsewhere "session_files \<Rightarrow> session_files" "monthly_files \<Rightarrow> monthly_files"
              "registry \<Rightarrow> registry"

text \<open>
  The world outside the session object. \<open>clock\<close> lists the successive readings of
  \<^verbatim>\<open>datetime.now()\<close> and \<open>reads\<close> counts the readings taken; \<open>disk\<close> gives the
  outcome of each attempt to write a file and \<open>writes\<close> counts the attempts;
  \<open>send_fails\<close> says which awaited calls of the chat library (a message sent or edited,
  an interaction deferred) raise, and \<open>sends\<close> counts these calls; \<open>schedule\<close> lists
  what happens at each suspension of the running task and \<open>awaits\<close> counts the
  suspensions; \<open>members_of\<close> gives the present value of \<^verbatim>\<open>channel.members\<close> by
  channel id. \<open>study_sessions\<close> and \<open>monthly_stats\<close> are the two directories of the
  database, \<open>active_sessions\<close> is the global dictionary of that name.
\<close>

record world =
  clock :: "nat \<Rightarrow> datetime"
  reads :: nat
  disk :: "nat \<Rightarrow> write_outcome"
  writes :: nat
  send_fails :: "nat \<Rightarrow> bool"
  sends :: nat
  schedule :: "nat \<Rightarrow> event list"
  awaits :: nat
  members_of :: "nat \<Rightarrow> member list"
  study_sessions :: session_files
  monthly_stats :: monthly_files
  active_sessions :: registry

definition now :: "world \<Rightarrow> datetime \<times> world" where
  "now w = (clock w (reads w), w\<lparr>reads := Suc (reads w)\<rparr>)"

definition disk_write :: "world \<Rightarrow> write_outcome \<times> world" where
  "disk_write w = (disk w (writes w), w\<lparr>writes := Suc (writes w)\<rparr>)"

text \<open>
  An awaited call of the chat library: whether it raises (\<^verbatim>\<open>discord.HTTPException\<close>).
\<close>

definition library_call :: "world \<Rightarrow> bool \<times> world" where
  "library_call w = (send_fails w (sends w), w\<lparr>sends := Suc (sends w)\<rparr>)"

definition session_filename :: "session_doc \<Rightarrow> datetime \<Rightarrow> string" where
  "session_filename session_data timestamp =
     str_nat (doc_year session_data) @ ''-'' @ pad2 (doc_month session_data) @ ''-''
       @ pad2 (dt_day (doc_session_start session_data)) @ ''_''
       @ doc_user_id session_data @ ''_'' @ strftime_stamp timestamp @ ''.pkl''"

definition save_study_session :: "session_doc \<Rightarrow> world \<Rightarrow> bool \<times> world" where
  "save_study_session session_data w =
     (let (timestamp, w1) = now w;
          filename = session_filename session_data timestamp;
          (outcome, w2) = disk_write w1
      in case outcome of
           Written \<Rightarrow>
             (True, w2\<lparr>study_sessions :=
                          AList.update filename (Pickled session_data) (study_sessions w2)\<rparr>)
         | OpenFailed \<Rightarrow> (False, w2)
         | DumpFailed \<Rightarrow>
             (False, w2\<lparr>study_sessions := AList.update filename Corrupt (study_sessions w2)\<rparr>))"

text \<open>
  \<^verbatim>\<open>get_user_sessions\<close>: the files \<^verbatim>\<open>*.pkl\<close> whose name contains
  \<^verbatim>\<open>_{user_id}_\<close> and, when year and month are both truthy, starts with
  \<^verbatim>\<open>{year}-{month:02d}\<close>; a file that cannot be unpickled is skipped.
\<close>

definition user_file_selected :: "nat \<Rightarrow> nat \<Rightarrow> nat \<Rightarrow> string \<Rightarrow> bool" where
  "user_file_selected user_id year month name =
     (suffix ''.pkl'' name
      \<and> sublist (''_'' @ str_nat user_id @ ''_'') name
      \<and> (if year \<noteq> 0 \<and> month \<noteq> 0
         then prefix (str_nat year @ ''-'' @ pad2 month) name else True))"

fun unpickled :: "'a stored \<Rightarrow> 'a list" where
  "unpickled (Pickled d) = [d]"
| "unpickled Corrupt = []"

definition get_user_sessions :: "nat \<Rightarrow> nat \<Rightarrow> nat \<Rightarrow> world \<Rightarrow> session_doc list" where
  "get_user_sessions user_id year month w =
     concat (map (\<lambda>(name, f). if user_file_selected user_id year month name
                               then unpickled f else [])
                 (study_sessions w))"

definition get_user_monthly_total :: "nat \<Rightarrow> month_id \<Rightarrow> world \<Rightarrow> int" where
  "get_user_monthly_total user_id mid w =
     (let (year, month) = mid;
          sessions = get_user_sessions user_id year month w
      in sum_list (map duration_minutes sessions))"

definition default_stats :: "month_id \<Rightarrow> datetime \<Rightarrow> stats" where
  "default_stats mid t =
     \<lparr>stats_id = month_key mid,
      organizations = map_of (map (\<lambda>org. (org, 0)) ORGANIZATIONS),
      top_individuals = [],
      last_updated = t\<rparr>"

definition get_monthly_stats :: "month_id \<Rightarrow> world \<Rightarrow> stats option \<times> world" where
  "get_monthly_stats mid w =
     (case monthly_stats w (month_key mid) of
        None \<Rightarrow> (let (t, w1) = now w in (Some (default_stats mid t), w1))
      | Some (Pickled st) \<Rightarrow> (Some st, w)
      | Some Corrupt \<Rightarrow> (None, w))"

definition save_monthly_stats :: "month_id \<Rightarrow> stats \<Rightarrow> world \<Rightarrow> bool \<times> world" where
  "save_monthly_stats mid stats_data w =
     (let (t, w1) = now w;
          stats_data1 = stats_data\<lparr>last_updated := t\<rparr>;
          (outcome, w2) = disk_write w1
      in case outcome of
           Written \<Rightarrow>
             (True, w2\<lparr>monthly_stats := (monthly_stats w2)(month_key mid \<mapsto> Pickled stats_data1)\<rparr>)
         | OpenFailed \<Rightarrow> (False, w2)
         | DumpFailed \<Rightarrow>
             (False, w2\<lparr>monthly_stats := (monthly_stats w2)(month_key mid \<mapsto> Corrupt)\<rparr>))"

text \<open>
  The body of \<^verbatim>\<open>update_monthly_stats\<close> between loading and saving. The list is sorted
  by \<^verbatim>\<open>minutes\<close> with \<^verbatim>\<open>reverse=True\<close>, a stable sort: entries with equal minutes keep
  their order.
\<close>

definition fold_stats :: "string \<Rightarrow> int \<Rightarrow> nat \<Rightarrow> string \<Rightarrow> int \<Rightarrow> stats \<Rightarrow> stats" where
  "fold_stats org minutes user_id username user_total st =
     (let total0 = (case organizations st org of None \<Rightarrow> 0 | Some n \<Rightarrow> n);
          orgs = (organizations st)(org \<mapsto> total0 + minutes);
          others = filter (\<lambda>ind. ind_user_id ind \<noteq> str_nat user_id) (top_individuals st);
          appended = others @ [\<lparr>ind_user_id = str_nat user_id, ind_username = username,
                                 ind_org = org, ind_minutes = user_total\<rparr>];
          sorted_desc = sort_key (\<lambda>x. - ind_minutes x) appended
      in st\<lparr>organizations := orgs, top_individuals := take 100 sorted_desc\<rparr>)"

definition update_monthly_stats ::
  "string \<Rightarrow> int \<Rightarrow> nat \<Rightarrow> string \<Rightarrow> world \<Rightarrow> bool \<times> world" where
  "update_monthly_stats org minutes user_id username w =
     (let (t, w1) = now w;
          mid = (dt_year t, dt_month t);
          (loaded, w2) = get_monthly_stats mid w1
      in case loaded of
           None \<Rightarrow> (False, w2)
         | Some st \<Rightarrow>
             (let user_total = get_user_monthly_total user_id mid w2
              in save_monthly_stats mid (fold_stats org minutes user_id username user_total st) w2))"

section \<open>The session object\<close>

text \<open>
  \<^verbatim>\<open>PomodoroSession\<close>. \<open>participants\<close> is the dictionary in insertion order.
  \<open>monitor_task\<close> is the state of the task running \<^verbatim>\<open>monitor_late_joiners\<close>, and
  \<open>phases\<close> records the methods the control flow has entered, under the names of the
  lifecycle states: \<open>Starting\<close> for \<^verbatim>\<open>start\<close>, \<open>Studying\<close> for \<^verbatim>\<open>study_period\<close>,
  \<open>Settling\<close> for \<^verbatim>\<open>award_credit\<close>, \<open>OnBreak\<close> for \<^verbatim>\<open>break_period\<close>, \<open>Completed\<close>
  for the end of \<^verbatim>\<open>start\<close> and \<open>Aborted\<close> for its early return.
\<close>

datatype monitor_state = NotCreated | Created | Sleeping | Done

datatype phase = Idle | Starting | Studying | Settling | OnBreak | Completed | Aborted

record session =
  chan :: channel
  duration :: int
  break_time :: int
  participants :: "(nat \<times> participant) list"
  session_start :: "datetime option"
  is_running :: bool
  is_study_period :: bool
  monitor_task :: monitor_state
  phases :: "phase list"

definition PomodoroSession :: "channel \<Rightarrow> int \<Rightarrow> int \<Rightarrow> session" where
  "PomodoroSession c d b =
     \<lparr>chan = c, duration = d, break_time = b, participants = [], session_start = None,
      is_running = True, is_study_period = False, monitor_task = NotCreated,
      phases = [Idle]\<rparr>"

definition non_bot_members :: "world \<Rightarrow> channel \<Rightarrow> member list" where
  "non_bot_members w c = filter (\<lambda>m. \<not> bot m) (members_of w (channel_id c))"

definition get_user_org :: "member \<Rightarrow> string" where
  "get_user_org m =
     (case filter (\<lambda>r. r \<in> set ORGANIZATIONS) (roles m) of
        [] \<Rightarrow> ''None''
      | r # _ \<Rightarrow> r)"

text \<open>
  Methods of the session return an optional exception together with the session object and
  the world as the call left them. \<^verbatim>\<open>add_participant\<close> compares the join time with
  \<^verbatim>\<open>self.session_start\<close>, which raises \<^verbatim>\<open>TypeError\<close> while that is \<^verbatim>\<open>None\<close>.
\<close>

definition add_participant ::
  "member \<Rightarrow> session \<times> world \<Rightarrow> exn option \<times> session \<times> world" where
  "add_participant m sw =
     (let (s, w) = sw
      in if member_id m \<notin> fst ` set (participants s)
         then (let org = get_user_org m;
                   (jt, w1) = now w
               in case session_start s of
                    None \<Rightarrow> (Some TypeError, s, w1)
                  | Some t0 \<Rightarrow>
                      (None,
                       s\<lparr>participants := participants s @
                            [(member_id m,
                              \<lparr>user = m, organization = org, join_time = jt,
                               late_join = (usec t0 < usec jt)\<rparr>)]\<rparr>,
                       w1))
         else (None, s, w))"

text \<open>The loop \<^verbatim>\<open>for member in members: self.add_participant(member)\<close> of \<^verbatim>\<open>start\<close>.\<close>

fun add_participants ::
  "member list \<Rightarrow> session \<times> world \<Rightarrow> exn option \<times> session \<times> world" where
  "add_participants [] sw = (None, sw)"
| "add_participants (m # ms) sw =
     (case add_participant m sw of
        (Some e, sw1) \<Rightarrow> (Some e, sw1)
      | (None, sw1) \<Rightarrow> add_participants ms sw1)"

subsection \<open>The late-joiner monitor\<close>

text \<open>
  The loop over \<^verbatim>\<open>current_members\<close> in \<^verbatim>\<open>monitor_late_joiners\<close>. After adding a
  member it reads the clock for \<^verbatim>\<open>minutes_late\<close> and sends the welcome message; a
  failure of that call ends the pass with the exception. The pass over one snapshot is
  taken as one step.
\<close>

fun monitor_scan ::
  "member list \<Rightarrow> session \<times> world \<Rightarrow> exn option \<times> session \<times> world" where
  "monitor_scan [] sw = (None, sw)"
| "monitor_scan (m # ms) sw =
     (if member_id m \<notin> fst ` set (participants (fst sw))
      then (case add_participant m sw of
              (Some e, sw1) \<Rightarrow> (Some e, sw1)
            | (None, s1, w1) \<Rightarrow>
                if fst (library_call (snd (now w1)))
                then (Some HTTPException, s1, snd (library_call (snd (now w1))))
                else monitor_scan ms (s1, snd (library_call (snd (now w1)))))
      else monitor_scan ms sw)"

text \<open>The test \<^verbatim>\<open>while self.is_running and self.is_study_period\<close> before each sleep.\<close>

definition monitor_loop_head :: "session \<Rightarrow> session" where
  "monitor_loop_head s =
     s\<lparr>monitor_task := (if is_running s \<and> is_study_period s then Sleeping else Done)\<rparr>"

text \<open>
  One pass of the monitor after its sleep. The monitor catches \<^verbatim>\<open>CancelledError\<close>
  only: any other exception ends the monitor task, and that task only.
\<close>

definition monitor_iteration :: "session \<times> world \<Rightarrow> session \<times> world" where
  "monitor_iteration sw =
     (case monitor_scan (non_bot_members (snd sw) (chan (fst sw))) sw of
        (Some e, s1, w1) \<Rightarrow> (s1\<lparr>monitor_task := Done\<rparr>, w1)
      | (None, s1, w1) \<Rightarrow> (monitor_loop_head s1, w1))"

text \<open>What another task does to the world: the session object is out of its reach.\<close>

fun world_event :: "event \<Rightarrow> world \<Rightarrow> world" where
  "world_event (Presence cid ms) w = w\<lparr>members_of := (members_of w)(cid := ms)\<rparr>"
| "world_event MonitorWake w = w"
| "world_event (Elsewhere fs fm fr) w =
     w\<lparr>study_sessions := fs (study_sessions w), monthly_stats := fm (monthly_stats w),
       active_sessions := fr (active_sessions w)\<rparr>"

fun handle_event :: "event \<Rightarrow> session \<times> world \<Rightarrow> session \<times> world" where
  "handle_event MonitorWake (s, w) =
     (if monitor_task s = Sleeping then monitor_iteration (s, w) else (s, w))"
| "handle_event ev (s, w) = (s, world_event ev w)"

text \<open>
  A suspension of the session's main task (every \<^verbatim>\<open>await\<close> of a sleep or of a call
  of the chat library): a monitor task created since the last suspension runs up to its
  first sleep, then the scheduled events happen in order.
\<close>

definition suspend :: "session \<times> world \<Rightarrow> session \<times> world" where
  "suspend sw =
     (let (s, w) = sw;
          s1 = (if monitor_task s = Created then monitor_loop_head s else s)
      in fold handle_event (schedule w (awaits w)) (s1, w\<lparr>awaits := Suc (awaits w)\<rparr>))"

text \<open>
  An awaited call of the chat library made by the session (\<^verbatim>\<open>send\<close>, \<^verbatim>\<open>edit\<close>):
  the task is suspended, and the call returns or raises; the flag says that it raised.
  Inside \<^verbatim>\<open>try: ... except: pass\<close> the exception is dropped.
\<close>

definition send :: "session \<times> world \<Rightarrow> bool \<times> session \<times> world" where
  "send sw =
     (let (s, w) = sw;
          (failed, w1) = library_call w
      in (failed, suspend (s, w1)))"

definition guarded_send :: "session \<times> world \<Rightarrow> session \<times> world" where
  "guarded_send sw = snd (send sw)"

text \<open>
  An awaited call of the chat library made by a command that owns no session
  (\<^verbatim>\<open>defer\<close>, \<^verbatim>\<open>followup.send\<close>).
\<close>

definition await_plain :: "world \<Rightarrow> bool \<times> world" where
  "await_plain w =
     (let (failed, w1) = library_call w
      in (failed, fold world_event (schedule w1 (awaits w1)) (w1\<lparr>awaits := Suc (awaits w1)\<rparr>)))"

subsection \<open>Study period, settlement, break\<close>

text \<open>\<^verbatim>\<open>range(0, total_sec, step)\<close> for a positive step.\<close>

definition py_range :: "int \<Rightarrow> int \<Rightarrow> int list" where
  "py_range total_sec step =
     map (\<lambda>k. step * int k) [0 ..< nat ((total_sec + step - 1) div step)]"

text \<open>
  The timer loop of \<^verbatim>\<open>study_period\<close> and of \<^verbatim>\<open>break_period\<close>: each round edits the
  timer message inside \<^verbatim>\<open>try: ... except: pass\<close> and sleeps, two suspensions. The
  occupant count read in the study loop is only printed.
\<close>

fun timer_loop :: "int list \<Rightarrow> session \<times> world \<Rightarrow> session \<times> world" where
  "timer_loop [] sw = sw"
| "timer_loop (elapsed # rest) sw =
     (if \<not> is_running (fst sw) then sw
      else timer_loop rest (suspend (guarded_send sw)))"

text \<open>
  \<^verbatim>\<open>study_period\<close>: the timer message is sent outside any \<^verbatim>\<open>try\<close>, so a failure
  of that call leaves the method with the exception; the final edit is guarded.
\<close>

definition study_period :: "session \<times> world \<Rightarrow> exn option \<times> session \<times> world" where
  "study_period sw =
     (let (s, w) = sw;
          s1 = s\<lparr>is_study_period := True, phases := phases s @ [Studying]\<rparr>;
          (failed, s2, w2) = send (s1, w)
      in if failed then (Some HTTPException, s2, w2)
         else (let total_sec = duration s2 * 60;
                   (s3, w3) = timer_loop (py_range total_sec 30) (s2, w2);
                   s4 = s3\<lparr>is_study_period := False\<rparr>
               in if is_running s4 then (None, guarded_send (s4, w3)) else (None, s4, w3)))"

text \<open>The three accumulators of \<^verbatim>\<open>award_credit\<close>.\<close>

record award_acc =
  credit_details :: "(member \<times> int \<times> bool) list"
  awarded_users :: "member list"
  left_early :: nat

text \<open>
  The branch \<^verbatim>\<open>if minutes_to_award > 0\<close> of the loop of \<^verbatim>\<open>award_credit\<close>, as far as
  the world is concerned: the session document is built (two readings of the clock for
  month and year), saved, and folded into the monthly statistics. The two database calls
  are coroutines without a suspension of their own; their return values are ignored, as
  in the source.
\<close>

definition record_credit ::
  "session \<Rightarrow> datetime \<Rightarrow> nat \<Rightarrow> participant \<Rightarrow> int \<Rightarrow> world \<Rightarrow> world" where
  "record_credit s study_end user_id data minutes w =
     (let (tm, w1) = now w;
          (ty, w2) = now w1;
          session_doc =
            \<lparr>doc_user_id = str_nat user_id,
             doc_username = member_name (user data),
             doc_organization = organization data,
             doc_session_start = join_time data,
             doc_session_end = study_end,
             duration_minutes = minutes,
             doc_month = dt_month tm,
             doc_year = dt_year ty,
             doc_channel_name = channel_name (chan s),
             doc_late_join = late_join data,
             completed = True\<rparr>;
          w3 = snd (save_study_session session_doc w2)
      in snd (update_monthly_stats (organization data) minutes user_id
                (member_name (user data)) w3))"

text \<open>
  The body of the loop over \<^verbatim>\<open>self.participants.items()\<close>. \<open>current\<close> holds the keys
  of the dictionary \<^verbatim>\<open>current\<close>.
\<close>

definition award_one ::
  "session \<Rightarrow> nat list \<Rightarrow> datetime \<Rightarrow> nat \<times> participant \<Rightarrow> award_acc \<times> world
     \<Rightarrow> exn option \<times> award_acc \<times> world" where
  "award_one s current study_end item aw =
     (let (user_id, data) = item;
          (acc, w) = aw
      in if user_id \<in> set current
         then (let acc1 = acc\<lparr>awarded_users := awarded_users acc @ [user data]\<rparr>
               in case minutes_to_award (duration s) (session_start s) study_end data of
                    Inl e \<Rightarrow> (Some e, acc1, w)
                  | Inr minutes \<Rightarrow>
                      if 0 < minutes
                      then (None,
                            acc1\<lparr>credit_details := credit_details acc1 @
                                   [(user data, minutes, late_join data)]\<rparr>,
                            record_credit s study_end user_id data minutes w)
                      else (None, acc1, w))
         else (None, acc\<lparr>left_early := left_early acc + 1\<rparr>, w))"

fun award_loop ::
  "session \<Rightarrow> nat list \<Rightarrow> datetime \<Rightarrow> (nat \<times> participant) list \<Rightarrow> award_acc \<times> world
     \<Rightarrow> exn option \<times> award_acc \<times> world" where
  "award_loop s current study_end [] aw = (None, aw)"
| "award_loop s current study_end (item # items) aw =
     (case award_one s current study_end item aw of
        (Some e, aw1) \<Rightarrow> (Some e, aw1)
      | (None, aw1) \<Rightarrow> award_loop s current study_end items aw1)"

definition no_awards :: award_acc where
  "no_awards = \<lparr>credit_details = [], awarded_users = [], left_early = 0\<rparr>"

text \<open>
  The settlement pass of \<^verbatim>\<open>award_credit\<close>: the snapshot \<^verbatim>\<open>current\<close>, the reading
  \<^verbatim>\<open>study_end\<close> and the loop.
\<close>

definition settle :: "session \<times> world \<Rightarrow> exn option \<times> award_acc \<times> world" where
  "settle sw =
     (let (s, w) = sw;
          current = map member_id (non_bot_members w (chan s));
          (study_end, w1) = now w
      in award_loop s current study_end (participants s) (no_awards, w1))"

text \<open>
  \<^verbatim>\<open>award_credit\<close>: the summary is sent, outside any \<^verbatim>\<open>try\<close>, when
  \<^verbatim>\<open>awarded_users\<close> is not empty.
\<close>

definition award_credit :: "session \<times> world \<Rightarrow> exn option \<times> session \<times> world" where
  "award_credit sw =
     (let (s, w) = sw
      in if \<not> is_running s then (None, s, w)
         else (let s1 = s\<lparr>phases := phases s @ [Settling]\<rparr>
               in case settle (s1, w) of
                    (Some e, acc, w2) \<Rightarrow> (Some e, s1, w2)
                  | (None, acc, w2) \<Rightarrow>
                      if awarded_users acc \<noteq> []
                      then (let (failed, s3, w3) = send (s1, w2)
                            in (if failed then Some HTTPException else None, s3, w3))
                      else (None, s1, w2)))"

text \<open>
  \<^verbatim>\<open>break_period\<close>: the break message is sent outside any \<^verbatim>\<open>try\<close>; the final edit
  and the final message share one \<^verbatim>\<open>try: ... except: pass\<close>, so a failed edit skips
  the message.
\<close>

definition break_period :: "session \<times> world \<Rightarrow> exn option \<times> session \<times> world" where
  "break_period sw =
     (let (s, w) = sw
      in if \<not> is_running s then (None, s, w)
         else (let s1 = s\<lparr>phases := phases s @ [OnBreak]\<rparr>;
                   (failed, s2, w2) = send (s1, w)
               in if failed then (Some HTTPException, s2, w2)
                  else (let total_sec = break_time s2 * 60;
                            (s3, w3) = timer_loop (py_range total_sec 15) (s2, w2)
                        in if is_running s3
                           then (let final_members = non_bot_members w3 (chan s3);
                                     (failed4, sw4) = send (s3, w3)
                                 in if \<not> failed4 \<and> final_members \<noteq> []
                                    then (None, guarded_send sw4) else (None, sw4))
                           else (None, s3, w3))))"

text \<open>
  \<^verbatim>\<open>PomodoroSession.start\<close>. The two messages it sends are outside any \<^verbatim>\<open>try\<close>.
  The monitor task is created after the start message and cancelled at the end; an
  exception leaves \<^verbatim>\<open>start\<close> at once, with the session object as it is.
\<close>

definition start :: "session \<times> world \<Rightarrow> exn option \<times> session \<times> world" where
  "start sw =
     (let (s0, w) = sw;
          s = s0\<lparr>phases := phases s0 @ [Starting]\<rparr>;
          members = non_bot_members w (chan s)
      in if members = []
         then (let (failed, s1, w1) = send (s, w)
               in if failed then (Some HTTPException, s1, w1)
                  else (None, s1\<lparr>phases := phases s1 @ [Aborted]\<rparr>, w1))
         else (let (t, w1) = now w;
                   s1 = s\<lparr>session_start := Some t\<rparr>
               in case add_participants members (s1, w1) of
                    (Some e, sw2) \<Rightarrow> (Some e, sw2)
                  | (None, sw2) \<Rightarrow>
                      (let (failed, s3, w3) = send sw2
                       in if failed then (Some HTTPException, s3, w3)
                          else (case study_period (s3\<lparr>monitor_task := Created\<rparr>, w3) of
                                  (Some e, sw5) \<Rightarrow> (Some e, sw5)
                                | (None, sw5) \<Rightarrow>
                                    (case award_credit sw5 of
                                       (Some e, sw6) \<Rightarrow> (Some e, sw6)
                                     | (None, sw6) \<Rightarrow>
                                         (case break_period sw6 of
                                            (Some e, sw7) \<Rightarrow> (Some e, sw7)
                                          | (None, s7, w7) \<Rightarrow>
                                              (None,
                                               s7\<lparr>is_running := False, monitor_task := Done,
                                                  phases := phases s7 @ [Completed]\<rparr>,
                                               w7)))))))"

section \<open>The pomodoro command\<close>

text \<open>
  \<^verbatim>\<open>interaction.user.voice\<close> is \<^verbatim>\<open>None\<close> or names the voice channel of the caller.
  A call of the command ends in one of three ways: \<^verbatim>\<open>defer\<close> raised and nothing was
  checked, a check failed and one of four refusals was sent, or the session was admitted
  and run. With the way goes the exception that left the command, if any: that of
  \<^verbatim>\<open>defer\<close>, that of the refusal message, or that of the session.
\<close>

record interaction =
  user_voice :: "channel option"

datatype refusal = NotInVoice | ChannelEmpty | Conflict | InvalidConfig

datatype command_result = Unacknowledged | Rejected refusal | Admitted

text \<open>The refusal \<^verbatim>\<open>await interaction.followup.send(...); return\<close>.\<close>

definition refuse :: "refusal \<Rightarrow> world \<Rightarrow> command_result \<times> exn option \<times> world" where
  "refuse x w =
     (let (failed, w1) = await_plain w
      in (Rejected x, if failed then Some HTTPException else None, w1))"

text \<open>
  \<^verbatim>\<open>pomodoro_slash\<close>, with \<^verbatim>\<open>await session.start()\<close> as the parameter \<open>run_session\<close>:
  while the command is suspended in that call, the session may return or raise, and other
  tasks may change the world, the dictionary \<^verbatim>\<open>active_sessions\<close> included. The
  \<^verbatim>\<open>finally\<close> clause runs on whatever world the call leaves.
\<close>

definition pomodoro_slash_with ::
  "(session \<times> world \<Rightarrow> exn option \<times> world) \<Rightarrow> interaction \<Rightarrow> int \<Rightarrow> int \<Rightarrow> world
     \<Rightarrow> command_result \<times> exn option \<times> world" where
  "pomodoro_slash_with run_session itx study_minutes break_minutes w0 =
     (let (failed, w) = await_plain w0
      in if failed then (Unacknowledged, Some HTTPException, w)
         else case user_voice itx of
           None \<Rightarrow> refuse NotInVoice w
         | Some c \<Rightarrow>
             if non_bot_members w c = [] then refuse ChannelEmpty w
             else if channel_id c \<in> dom (active_sessions w) then refuse Conflict w
             else if study_minutes > 120 \<or> study_minutes < 1 then refuse InvalidConfig w
             else if break_minutes > 60 \<or> break_minutes < 0 then refuse InvalidConfig w
             else (let sess = PomodoroSession c study_minutes break_minutes;
                       w1 = w\<lparr>active_sessions :=
                                (active_sessions w)(channel_id c \<mapsto> (study_minutes, break_minutes))\<rparr>;
                       (e, w2) = run_session (sess, w1);
                       w3 = (if channel_id c \<in> dom (active_sessions w2)
                             then w2\<lparr>active_sessions := (active_sessions w2)(channel_id c := None)\<rparr>
                             else w2)
                   in (Admitted, e, w3)))"

text \<open>The command with the session method of this program.\<close>

definition session_task :: "session \<times> world \<Rightarrow> exn option \<times> world" where
  "session_task sw = (case start sw of (e, s, w) \<Rightarrow> (e, w))"

definition pomodoro_slash ::
  "interaction \<Rightarrow> int \<Rightarrow> int \<Rightarrow> world \<Rightarrow> command_result \<times> exn option \<times> world" where
  "pomodoro_slash = pomodoro_slash_with session_task"

section \<open>Example values\<close>

text \<open>Concrete values on which the theorems below are instantiated.\<close>

definition at_time :: "int \<Rightarrow> datetime" where
  "at_time t = \<lparr>usec = t, dt_year = 2025, dt_month = 3, dt_day = 14,
               dt_hour = 10, dt_minute = 0, dt_second = 0\<rparr>"

definition alice :: member where
  "alice = \<lparr>member_id = 100000000000000001, member_name = ''alice'', bot = False,
            roles = [''VTK'']\<rparr>"

definition bob :: member where
  "bob = \<lparr>member_id = 100000000000000002, member_name = ''bob'', bot = False,
          roles = [''student'', ''Wina'']\<rparr>"

definition library :: channel where
  "library = \<lparr>channel_id = 7, channel_name = ''library''\<rparr>"

section \<open>Specification vocabulary\<close>

text \<open>
  The leaderboard invariant: at most 100 entries, one entry per user id, and minutes in
  descending order; and the same for every readable monthly file of the database.
\<close>

definition leaderboard_ok :: "individual list \<Rightarrow> bool" where
  "leaderboard_ok tops =
     (length tops \<le> 100 \<and> distinct (map ind_user_id tops)
      \<and> sorted_wrt (\<lambda>a b. ind_minutes b \<le> ind_minutes a) tops)"

definition leaderboards_ok :: "world \<Rightarrow> bool" where
  "leaderboards_ok w =
     (\<forall>k st. monthly_stats w k = Some (Pickled st) \<longrightarrow> leaderboard_ok (top_individuals st))"

text \<open>Any sequence of the two calls that change the database.\<close>

datatype db_call = Save session_doc | Fold string int nat string

fun db_calls :: "db_call list \<Rightarrow> world \<Rightarrow> world" where
  "db_calls [] w = w"
| "db_calls (Save d # cs) w = db_calls cs (snd (save_study_session d w))"
| "db_calls (Fold org minutes user_id username # cs) w =
     db_calls cs (snd (update_monthly_stats org minutes user_id username w))"

text \<open>
  A world for the examples: the clock advances by one microsecond per reading, every
  write and every call of the chat library succeeds, nothing happens during suspensions,
  and the database is empty.
\<close>

definition world0 :: world where
  "world0 = \<lparr>clock = (\<lambda>n. at_time (int n)), reads = 0, disk = (\<lambda>n. Written), writes = 0,
             send_fails = (\<lambda>n. False), sends = 0,
             schedule = (\<lambda>n. []), awaits = 0, members_of = (\<lambda>c. []),
             study_sessions = [], monthly_stats = Map.empty, active_sessions = Map.empty\<rparr>"

text \<open>
  \<open>stable s s'\<close>: the session \<open>s'\<close> has the configuration, start time, running flag and
  phases of \<open>s\<close>, and its participants extend those of \<open>s\<close>.
\<close>

definition stable :: "session \<Rightarrow> session \<Rightarrow> bool" where
  "stable s s' =
     (chan s' = chan s \<and> duration s' = duration s \<and> break_time s' = break_time s
      \<and> session_start s' = session_start s \<and> is_running s' = is_running s
      \<and> phases s' = phases s \<and> prefix (participants s) (participants s'))"

text \<open>
  The participants for whom the settlement does more than count: those in the current
  snapshot whose award is positive (or whose award cannot be computed).
\<close>

definition credited :: "session \<Rightarrow> nat list \<Rightarrow> datetime \<Rightarrow> nat \<times> participant \<Rightarrow> bool" where
  "credited s current study_end item =
     (fst item \<in> set current
      \<and> (case minutes_to_award (duration s) (session_start s) study_end (snd item) of
           Inl e \<Rightarrow> True
         | Inr minutes \<Rightarrow> 0 < minutes))"



text \<open>
  Worlds for the examples: the channel \<open>library\<close> occupied by two members, and the same
  with a session already registered for it.
\<close>

definition open_world :: world where
  "open_world = world0\<lparr>members_of := (\<lambda>c. [])(channel_id library := [alice, bob])\<rparr>"

definition busy_world :: world where
  "busy_world = open_world\<lparr>active_sessions := [channel_id library \<mapsto> (25, 5)]\<rparr>"

text \<open>
  \<open>time_passes w w'\<close>: the environment (clock, disk, chat library, schedule) of \<open>w'\<close> is
  that of \<open>w\<close>; readings, writes, calls, suspensions, occupants, database and registry
  may differ.
\<close>

definition time_passes :: "world \<Rightarrow> world \<Rightarrow> bool" where
  "time_passes w w' =
     (schedule w' = schedule w \<and> clock w' = clock w \<and> disk w' = disk w
      \<and> send_fails w' = send_fails w)"

text \<open>\<open>steady sw sw'\<close>: both, for a session with its world.\<close>

definition steady :: "session \<times> world \<Rightarrow> session \<times> world \<Rightarrow> bool" where
  "steady sw sw' = (stable (fst sw) (fst sw') \<and> time_passes (snd sw) (snd sw'))"

text \<open>
  Events of other tasks that reach the database or the registry, and a schedule slot
  free of them.
\<close>

fun elsewhere :: "event \<Rightarrow> bool" where
  "elsewhere (Elsewhere fs fm fr) = True"
| "elsewhere ev = False"

definition undisturbed :: "world \<Rightarrow> nat \<Rightarrow> bool" where
  "undisturbed w n = list_all (\<lambda>ev. \<not> elsewhere ev) (schedule w n)"

text \<open>
  The aggregate that \<open>update_monthly_stats\<close> starts from, read off the monthly directory:
  the stored one, or the default of \<open>get_monthly_stats\<close> when the month has no file.
\<close>

definition stored_stats :: "world \<Rightarrow> month_id \<Rightarrow> datetime \<Rightarrow> stats \<Rightarrow> bool" where
  "stored_stats w mid t st =
     (monthly_stats w (month_key mid) = Some (Pickled st)
      \<or> monthly_stats w (month_key mid) = None \<and> st = default_stats mid t)"

text \<open>
  The occupied channel again, where everybody has left by the first suspension of the
  session (the start message) and the channel is found empty at every later one.
\<close>

definition deserted_world :: world where
  "deserted_world = open_world\<lparr>schedule := (\<lambda>n. [Presence (channel_id library) []])\<rparr>"

text \<open>A started session in which \<open>alice\<close> is a participant since the start.\<close>

definition alice_session :: session where
  "alice_session =
     (PomodoroSession library 25 5)\<lparr>session_start := Some (at_time 0),
        participants := [(member_id alice,
           \<lparr>user = alice, organization = ''VTK'', join_time = at_time 0, late_join = False\<rparr>)]\<rparr>"

text \<open>
  The session records of a user for a month, read from the documents themselves: every
  readable file of the directory, filtered by the fields \<open>user_id\<close>, \<open>year\<close> and \<open>month\<close>
  of the pickled dictionary.
\<close>

definition persisted_docs :: "world \<Rightarrow> session_doc list" where
  "persisted_docs w = concat (map (\<lambda>(name, f). unpickled f) (study_sessions w))"

definition user_month_docs :: "nat \<Rightarrow> month_id \<Rightarrow> world \<Rightarrow> session_doc list" where
  "user_month_docs user_id mid w =
     filter (\<lambda>d. doc_user_id d = str_nat user_id \<and> doc_year d = fst mid \<and> doc_month d = snd mid)
            (persisted_docs w)"

text \<open>
  The ranges of the calendar fields of a \<^verbatim>\<open>datetime\<close>; a document whose user id is free
  of underscores and whose month is a month; and a session directory in which every
  readable file is a document stored under a name that \<open>save_study_session\<close> gives it.
\<close>

definition is_digit :: "char \<Rightarrow> bool" where
  "is_digit c = (c \<in> set ''0123456789'')"

definition valid_datetime :: "datetime \<Rightarrow> bool" where
  "valid_datetime t =
     (1 \<le> dt_year t \<and> dt_year t \<le> 9999 \<and> 1 \<le> dt_month t \<and> dt_month t \<le> 12
      \<and> 1 \<le> dt_day t \<and> dt_day t \<le> 31
      \<and> dt_hour t < 24 \<and> dt_minute t < 60 \<and> dt_second t < 60)"

definition doc_ok :: "session_doc \<Rightarrow> bool" where
  "doc_ok d = (CHR ''_'' \<notin> set (doc_user_id d) \<and> 1 \<le> doc_month d \<and> doc_month d \<le> 12)"

definition session_files_ok :: "world \<Rightarrow> bool" where
  "session_files_ok w =
     (\<forall>(name, f) \<in> set (study_sessions w). \<forall>d. f = Pickled d \<longrightarrow>
        (\<exists>ts. name = session_filename d ts \<and> doc_ok d \<and> valid_datetime ts))"

text \<open>The document of a full session of \<open>alice\<close>.\<close>

definition alice_doc :: session_doc where
  "alice_doc =
     \<lparr>doc_user_id = str_nat (member_id alice), doc_username = ''alice'',
      doc_organization = ''VTK'', doc_session_start = at_time 0,
      doc_session_end = at_time 1500000000, duration_minutes = 25, doc_month = 3,
      doc_year = 2025, doc_channel_name = ''library'', doc_late_join = False,
      completed = True\<rparr>"

section \<open>Properties of the credit accountant\<close>


section \<open>Reading the clock and calling the chat library\<close>

lemma now_frame [simp]:
  "monthly_stats (snd (now w)) = monthly_stats w"
  "study_sessions (snd (now w)) = study_sessions w"
  "active_sessions (snd (now w)) = active_sessions w"
  "members_of (snd (now w)) = members_of w"
  "fst (now w) = clock w (reads w)"
  by (simp_all add: now_def)

lemma library_call_frame [simp]:
  "monthly_stats (snd (library_call w)) = monthly_stats w"
  "study_sessions (snd (library_call w)) = study_sessions w"
  "active_sessions (snd (library_call w)) = active_sessions w"
  "members_of (snd (library_call w)) = members_of w"
  "schedule (snd (library_call w)) = schedule w"
  "awaits (snd (library_call w)) = awaits w"
  "fst (library_call w) = send_fails w (sends w)"
  by (simp_all add: library_call_def)

section \<open>Participants are added once\<close>

lemma add_participant_present:
  "member_id m \<in> fst ` set (participants s) \<Longrightarrow> add_participant m (s, w) = (None, s, w)"
  by (simp add: add_participant_def)

lemma add_participant_prefix:
  "add_participant m (s, w) = (e, s', w') \<Longrightarrow> prefix (participants s) (participants s')"
  by (auto simp: add_participant_def Let_def now_def split: if_splits option.splits)

lemma monitor_scan_prefix:
  "monitor_scan ms (s, w) = (e, s', w') \<Longrightarrow> prefix (participants s) (participants s')"
proof (induction ms arbitrary: s w)
  case Nil
  then show ?case by simp
next
  case (Cons m ms)
  show ?case
  proof (cases "member_id m \<in> fst ` set (participants s)")
    case True
    with Cons show ?thesis by simp
  next
    case False
    obtain e1 s1 w1 where a: "add_participant m (s, w) = (e1, s1, w1)"
      by (cases "add_participant m (s, w)") auto
    have p1: "prefix (participants s) (participants s1)"
      using a by (rule add_participant_prefix)
    show ?thesis
    proof (cases e1)
      case None
      show ?thesis
      proof (cases "fst (library_call (snd (now w1)))")
        case True
        with Cons.prems False a None have "s' = s1" by simp
        with p1 show ?thesis by simp
      next
        case nf: False
        with Cons.prems False a None
        have "monitor_scan ms (s1, snd (library_call (snd (now w1)))) = (e, s', w')" by simp
        from Cons.IH[OF this] p1 show ?thesis by (rule prefix_order.trans[rotated])
      qed
    next
      case (Some x)
      with Cons.prems False a have "s' = s1" by simp
      with p1 show ?thesis by simp
    qed
  qed
qed

lemma monitor_iteration_prefix:
  "prefix (participants (fst sw)) (participants (fst (monitor_iteration sw)))"
proof -
  obtain s w where sw: "sw = (s, w)" by (cases sw)
  obtain e s1 w1 where a: "monitor_scan (non_bot_members w (chan s)) (s, w) = (e, s1, w1)"
    by (cases "monitor_scan (non_bot_members w (chan s)) (s, w)") auto
  from monitor_scan_prefix[OF a] a show ?thesis
    by (cases e) (simp_all add: sw monitor_iteration_def monitor_loop_head_def)
qed

lemma monitor_iterations_prefix:
  "prefix (participants (fst sw)) (participants (fst ((monitor_iteration ^^ n) sw)))"
proof (induction n)
  case 0
  then show ?case by simp
next
  case (Suc n)
  have "prefix (participants (fst ((monitor_iteration ^^ n) sw)))
               (participants (fst (monitor_iteration ((monitor_iteration ^^ n) sw))))"
    by (rule monitor_iteration_prefix)
  with Suc show ?case by (simp add: prefix_order.trans)
qed

lemma map_of_prefix_keep:
  assumes "prefix xs ys" and "k \<in> fst ` set xs"
  shows "map_of ys k = map_of xs k"
proof -
  from assms(1) obtain zs where ys: "ys = xs @ zs" by (auto simp: prefix_def)
  from assms(2) have "k \<in> dom (map_of xs)" by (simp add: dom_map_of_conv_image_fst)
  then show ?thesis unfolding ys by (simp add: map_add_dom_app_simps)
qed

text \<open>
  C10. For a member whose id is already a key of \<open>participants\<close>, \<open>add_participant\<close>
  returns the session and the world as they were (the clock is not even read), and after
  any number of passes of the late-joiner monitor the entry stored under that id (join
  time, organization, late flag) is the one stored before.
\<close>

theorem add_participant_idempotent:
  assumes "member_id m \<in> fst ` set (participants s)"
  shows "add_participant m (s, w) = (None, s, w)
         \<and> map_of (participants (fst ((monitor_iteration ^^ n) (s, w)))) (member_id m)
             = map_of (participants s) (member_id m)"
proof
  show "add_participant m (s, w) = (None, s, w)"
    using assms by (rule add_participant_present)
  have "prefix (participants s) (participants (fst ((monitor_iteration ^^ n) (s, w))))"
    using monitor_iterations_prefix[of "(s, w)" n] by simp
  then show "map_of (participants (fst ((monitor_iteration ^^ n) (s, w)))) (member_id m)
             = map_of (participants s) (member_id m)"
    using assms by (rule map_of_prefix_keep)
qed

theorem add_participant_idempotent_witness:
  "add_participant alice
     ((PomodoroSession library 25 5)\<lparr>participants :=
         [(member_id alice, \<lparr>user = alice, organization = ''VTK'', join_time = at_time 0,
                             late_join = False\<rparr>)]\<rparr>, world0)
   = (None,
      (PomodoroSession library 25 5)\<lparr>participants :=
         [(member_id alice, \<lparr>user = alice, organization = ''VTK'', join_time = at_time 0,
                             late_join = False\<rparr>)]\<rparr>, world0)"
  using add_participant_idempotent [of alice
      "(PomodoroSession library 25 5)\<lparr>participants :=
         [(member_id alice, \<lparr>user = alice, organization = ''VTK'', join_time = at_time 0,
                             late_join = False\<rparr>)]\<rparr>" world0 1]
  by simp

section \<open>The monthly aggregate\<close>

lemma fold_stats_top:
  "top_individuals (fold_stats org minutes user_id username tot st) =
     take 100 (sort_key (\<lambda>x. - ind_minutes x)
       (filter (\<lambda>ind. ind_user_id ind \<noteq> str_nat user_id) (top_individuals st) @
        [\<lparr>ind_user_id = str_nat user_id, ind_username = username,
          ind_org = org, ind_minutes = tot\<rparr>]))"
  by (simp add: fold_stats_def Let_def)

lemma fold_stats_orgs:
  "organizations (fold_stats org minutes user_id username tot st) =
     (organizations st)(org \<mapsto> (case organizations st org of None \<Rightarrow> 0 | Some n \<Rightarrow> n) + minutes)"
  by (simp add: fold_stats_def Let_def)

lemma distinct_ids_sort:
  "distinct (map ind_user_id (sort_key f xs)) = distinct (map ind_user_id xs)"
  by (simp add: distinct_map)

lemma distinct_ids_take:
  "distinct (map ind_user_id xs) \<Longrightarrow> distinct (map ind_user_id (take n xs))"
  by (simp add: take_map[symmetric])

lemma sorted_desc_sort:
  "sorted_wrt (\<lambda>a b. ind_minutes b \<le> ind_minutes a) (sort_key (\<lambda>x. - ind_minutes x) xs)"
proof -
  have "sorted (map (\<lambda>x. - ind_minutes x) (sort_key (\<lambda>x. - ind_minutes x) xs))"
    by (rule sorted_sort_key)
  then show ?thesis by (simp add: sorted_map)
qed

lemma fold_stats_ok:
  assumes "distinct (map ind_user_id (top_individuals st))"
  shows "leaderboard_ok (top_individuals (fold_stats org minutes user_id username tot st))"
proof -
  let ?new = "\<lparr>ind_user_id = str_nat user_id, ind_username = username,
               ind_org = org, ind_minutes = tot\<rparr>"
  let ?others = "filter (\<lambda>ind. ind_user_id ind \<noteq> str_nat user_id) (top_individuals st)"
  have d: "distinct (map ind_user_id (?others @ [?new]))"
    using assms by (auto simp: distinct_map_filter)
  have "distinct (map ind_user_id (take 100 (sort_key (\<lambda>x. - ind_minutes x) (?others @ [?new]))))"
    by (rule distinct_ids_take) (simp only: distinct_ids_sort d)
  moreover have "sorted_wrt (\<lambda>a b. ind_minutes b \<le> ind_minutes a)
                   (take 100 (sort_key (\<lambda>x. - ind_minutes x) (?others @ [?new])))"
    by (rule sorted_wrt_take) (rule sorted_desc_sort)
  ultimately show ?thesis
    by (simp add: leaderboard_ok_def fold_stats_top)
qed

lemma save_study_session_monthly:
  "monthly_stats (snd (save_study_session d w)) = monthly_stats w"
  by (simp add: save_study_session_def now_def disk_write_def Let_def
      split: write_outcome.splits)

lemma get_monthly_stats_frame [simp]:
  "monthly_stats (snd (get_monthly_stats mid w)) = monthly_stats w"
  "study_sessions (snd (get_monthly_stats mid w)) = study_sessions w"
  by (simp_all add: get_monthly_stats_def now_def split: option.splits stored.splits)

lemma get_monthly_stats_Some:
  "fst (get_monthly_stats mid w) = Some st \<Longrightarrow>
     monthly_stats w (month_key mid) = Some (Pickled st)
     \<or> (monthly_stats w (month_key mid) = None \<and> st = default_stats mid (clock w (reads w)))"
  by (auto simp: get_monthly_stats_def now_def split: option.splits stored.splits)

lemma save_monthly_stats_result:
  "save_monthly_stats mid st w = (ok, w') \<Longrightarrow>
     study_sessions w' = study_sessions w \<and> ok = (disk w (writes w) = Written) \<and>
     monthly_stats w' =
       (case disk w (writes w) of
          Written \<Rightarrow> (monthly_stats w)(month_key mid \<mapsto>
                        Pickled (st\<lparr>last_updated := clock w (reads w)\<rparr>))
        | OpenFailed \<Rightarrow> monthly_stats w
        | DumpFailed \<Rightarrow> (monthly_stats w)(month_key mid \<mapsto> Corrupt))"
  by (auto simp: save_monthly_stats_def now_def disk_write_def Let_def
      split: write_outcome.splits)

lemma update_monthly_stats_unfold:
  "update_monthly_stats org minutes user_id username w =
     (let mid = (dt_year (clock w (reads w)), dt_month (clock w (reads w)));
          r = get_monthly_stats mid (snd (now w))
      in case fst r of
           None \<Rightarrow> (False, snd r)
         | Some st \<Rightarrow>
             save_monthly_stats mid
               (fold_stats org minutes user_id username
                  (get_user_monthly_total user_id mid (snd r)) st) (snd r))"
  by (simp add: update_monthly_stats_def Let_def split_def split: option.splits)

lemma update_monthly_stats_ok:
  assumes "leaderboards_ok w"
  shows "leaderboards_ok (snd (update_monthly_stats org minutes user_id username w))"
proof -
  let ?mid = "(dt_year (clock w (reads w)), dt_month (clock w (reads w)))"
  let ?r = "get_monthly_stats ?mid (snd (now w))"
  show ?thesis
  proof (cases "fst ?r")
    case None
    then show ?thesis using assms
      by (simp add: update_monthly_stats_unfold Let_def leaderboards_ok_def)
  next
    case (Some st)
    have d: "distinct (map ind_user_id (top_individuals st))"
      using get_monthly_stats_Some[OF Some] assms
      by (auto simp: leaderboards_ok_def leaderboard_ok_def default_stats_def)
    let ?st' = "fold_stats org minutes user_id username
                  (get_user_monthly_total user_id ?mid (snd ?r)) st"
    obtain ok w' where sv: "save_monthly_stats ?mid ?st' (snd ?r) = (ok, w')"
      by (cases "save_monthly_stats ?mid ?st' (snd ?r)") auto
    have u: "update_monthly_stats org minutes user_id username w = (ok, w')"
      using Some sv by (simp add: update_monthly_stats_unfold Let_def)
    have "leaderboards_ok w'"
      using save_monthly_stats_result[OF sv] assms fold_stats_ok[OF d]
      by (auto simp: leaderboards_ok_def split: if_splits write_outcome.splits)
    then show ?thesis by (simp add: u)
  qed
qed

lemma save_study_session_ok:
  "leaderboards_ok w \<Longrightarrow> leaderboards_ok (snd (save_study_session d w))"
  by (simp add: leaderboards_ok_def save_study_session_monthly)

lemma update_monthly_stats_corrupt:
  assumes "monthly_stats w (month_key (dt_year (clock w (reads w)), dt_month (clock w (reads w))))
             = Some Corrupt"
  shows "update_monthly_stats org minutes user_id username w = (False, snd (now w))"
  using assms by (simp add: update_monthly_stats_unfold get_monthly_stats_def Let_def)

lemma get_monthly_stats_stored:
  assumes "stored_stats w mid (clock w (reads w)) st"
  shows "fst (get_monthly_stats mid w) = Some st"
    and "study_sessions (snd (get_monthly_stats mid w)) = study_sessions w"
    and "monthly_stats (snd (get_monthly_stats mid w)) = monthly_stats w"
    and "disk (snd (get_monthly_stats mid w)) = disk w"
    and "writes (snd (get_monthly_stats mid w)) = writes w"
  using assms by (auto simp: stored_stats_def get_monthly_stats_def now_def)

lemma update_monthly_stats_outcome:
  assumes "stored_stats w (dt_year (clock w (reads w)), dt_month (clock w (reads w)))
             (clock w (Suc (reads w))) st"
  shows "fst (update_monthly_stats org minutes user_id username w) = (disk w (writes w) = Written)"
    and "\<exists>t. monthly_stats (snd (update_monthly_stats org minutes user_id username w)) =
          (case disk w (writes w) of
             Written \<Rightarrow>
               (monthly_stats w)
                 (month_key (dt_year (clock w (reads w)), dt_month (clock w (reads w))) \<mapsto>
                    Pickled ((fold_stats org minutes user_id username
                               (get_user_monthly_total user_id
                                  (dt_year (clock w (reads w)), dt_month (clock w (reads w))) w) st)
                             \<lparr>last_updated := t\<rparr>))
           | OpenFailed \<Rightarrow> monthly_stats w
           | DumpFailed \<Rightarrow>
               (monthly_stats w)
                 (month_key (dt_year (clock w (reads w)), dt_month (clock w (reads w))) \<mapsto>
                    Corrupt))"
proof -
  let ?mid = "(dt_year (clock w (reads w)), dt_month (clock w (reads w)))"
  let ?r = "get_monthly_stats ?mid (snd (now w))"
  have "stored_stats (snd (now w)) ?mid (clock (snd (now w)) (reads (snd (now w)))) st"
    using assms by (simp add: stored_stats_def now_def)
  note g = get_monthly_stats_stored[OF this]
  have tot: "get_user_monthly_total user_id ?mid (snd ?r) = get_user_monthly_total user_id ?mid w"
    using g(2) by (simp add: get_user_monthly_total_def get_user_sessions_def split_def)
  let ?st' = "fold_stats org minutes user_id username (get_user_monthly_total user_id ?mid w) st"
  have u: "update_monthly_stats org minutes user_id username w = save_monthly_stats ?mid ?st' (snd ?r)"
    using g(1) tot by (simp add: update_monthly_stats_unfold Let_def)
  obtain ok w' where sv: "save_monthly_stats ?mid ?st' (snd ?r) = (ok, w')"
    by (cases "save_monthly_stats ?mid ?st' (snd ?r)") auto
  have dw: "disk (snd ?r) (writes (snd ?r)) = disk w (writes w)"
    using g(4,5) by (simp add: now_def)
  from save_monthly_stats_result[OF sv]
  show "fst (update_monthly_stats org minutes user_id username w) = (disk w (writes w) = Written)"
    unfolding u sv dw by simp
  from save_monthly_stats_result[OF sv]
  have "monthly_stats w' =
          (case disk w (writes w) of
             Written \<Rightarrow> (monthly_stats w)(month_key ?mid \<mapsto>
                  Pickled (?st'\<lparr>last_updated := clock (snd ?r) (reads (snd ?r))\<rparr>))
           | OpenFailed \<Rightarrow> monthly_stats w
           | DumpFailed \<Rightarrow> (monthly_stats w)(month_key ?mid \<mapsto> Corrupt))"
    using g(3) unfolding dw by (cases "disk w (writes w)") simp_all
  then show "\<exists>t. monthly_stats (snd (update_monthly_stats org minutes user_id username w)) =
          (case disk w (writes w) of
             Written \<Rightarrow> (monthly_stats w)(month_key ?mid \<mapsto> Pickled (?st'\<lparr>last_updated := t\<rparr>))
           | OpenFailed \<Rightarrow> monthly_stats w
           | DumpFailed \<Rightarrow> (monthly_stats w)(month_key ?mid \<mapsto> Corrupt))"
    unfolding u sv by (intro exI[of _ "clock (snd ?r) (reads (snd ?r))"]) simp
qed

text \<open>
  C3. Starting from a database whose readable monthly files satisfy the leaderboard
  invariant (an empty database does), after any sequence of \<open>update_monthly_stats\<close> and
  \<open>save_study_session\<close> calls every readable monthly file has at most 100 entries in
  \<open>top_individuals\<close>, no user id twice, and minutes in descending order.
\<close>

theorem leaderboard_invariant:
  "leaderboards_ok w \<Longrightarrow> leaderboards_ok (db_calls calls w)"
proof (induction calls arbitrary: w)
  case Nil
  then show ?case by simp
next
  case (Cons c calls)
  then show ?case
    by (cases c) (simp_all add: update_monthly_stats_ok save_study_session_ok)
qed

theorem leaderboard_invariant_witness:
  "leaderboards_ok
     (db_calls [Fold ''VTK'' 25 (member_id alice) ''alice'',
                Fold ''Wina'' 15 (member_id bob) ''bob''] world0)"
proof -
  have "leaderboards_ok world0"
    by (simp add: leaderboards_ok_def world0_def)
  then show ?thesis by (rule leaderboard_invariant)
qed

text \<open>
  C7 (as amended). A call of \<open>update_monthly_stats\<close> goes one of four ways, according to
  the file of the current month and to the outcome of the write. When the file cannot be
  unpickled the call returns \<open>False\<close> and the monthly directory is as it was. Otherwise,
  with \<open>st\<close> the stored aggregate (the default one when the month has no file): a write
  that succeeds returns \<open>True\<close> and stores an aggregate whose totals are those of \<open>st\<close>
  except for the named organization, whose total is its total in \<open>st\<close> (0 when not
  listed) plus \<open>minutes\<close>, and the files of the other months are as they were; a write
  that fails at \<^verbatim>\<open>open\<close> returns \<open>False\<close> and the directory is as it was; a write that
  fails after \<^verbatim>\<open>open\<close> returns \<open>False\<close> and leaves the file of the month unreadable.
\<close>

theorem fold_session_org_total:
  "(monthly_stats w (month_key (dt_year (clock w (reads w)), dt_month (clock w (reads w))))
      = Some Corrupt \<longrightarrow>
      \<not> fst (update_monthly_stats org minutes user_id username w)
    \<and> monthly_stats (snd (update_monthly_stats org minutes user_id username w)) = monthly_stats w)
   \<and> (stored_stats w (dt_year (clock w (reads w)), dt_month (clock w (reads w)))
         (clock w (Suc (reads w))) st \<longrightarrow>
       (disk w (writes w) = Written \<longrightarrow>
          fst (update_monthly_stats org minutes user_id username w)
        \<and> (\<exists>st'. monthly_stats (snd (update_monthly_stats org minutes user_id username w))
                   = (monthly_stats w)
                       (month_key (dt_year (clock w (reads w)), dt_month (clock w (reads w)))
                          \<mapsto> Pickled st')
               \<and> organizations st'
                   = (organizations st)
                       (org \<mapsto> (case organizations st org of None \<Rightarrow> 0 | Some n \<Rightarrow> n)
                                 + minutes)))
     \<and> (disk w (writes w) = OpenFailed \<longrightarrow>
          \<not> fst (update_monthly_stats org minutes user_id username w)
        \<and> monthly_stats (snd (update_monthly_stats org minutes user_id username w))
            = monthly_stats w)
     \<and> (disk w (writes w) = DumpFailed \<longrightarrow>
          \<not> fst (update_monthly_stats org minutes user_id username w)
        \<and> monthly_stats (snd (update_monthly_stats org minutes user_id username w))
            = (monthly_stats w)
                (month_key (dt_year (clock w (reads w)), dt_month (clock w (reads w)))
                   \<mapsto> Corrupt)))"
proof (intro conjI impI)
  assume "monthly_stats w (month_key (dt_year (clock w (reads w)), dt_month (clock w (reads w))))
            = Some Corrupt"
  from update_monthly_stats_corrupt[OF this, of org minutes user_id username]
  show "\<not> fst (update_monthly_stats org minutes user_id username w)"
    and "monthly_stats (snd (update_monthly_stats org minutes user_id username w)) = monthly_stats w"
    by simp_all
next
  assume st: "stored_stats w (dt_year (clock w (reads w)), dt_month (clock w (reads w)))
                (clock w (Suc (reads w))) st"
    and d: "disk w (writes w) = Written"
  from update_monthly_stats_outcome(1)[OF st, of org minutes user_id username] d
  show "fst (update_monthly_stats org minutes user_id username w)" by simp
  from update_monthly_stats_outcome(2)[OF st, of org minutes user_id username] d
  show "\<exists>st'. monthly_stats (snd (update_monthly_stats org minutes user_id username w))
                   = (monthly_stats w)
                       (month_key (dt_year (clock w (reads w)), dt_month (clock w (reads w)))
                          \<mapsto> Pickled st')
               \<and> organizations st'
                   = (organizations st)
                       (org \<mapsto> (case organizations st org of None \<Rightarrow> 0 | Some n \<Rightarrow> n)
                                 + minutes)"
    by (auto simp: fold_stats_orgs)
next
  assume st: "stored_stats w (dt_year (clock w (reads w)), dt_month (clock w (reads w)))
                (clock w (Suc (reads w))) st"
    and d: "disk w (writes w) = OpenFailed"
  from update_monthly_stats_outcome(1)[OF st, of org minutes user_id username] d
  show "\<not> fst (update_monthly_stats org minutes user_id username w)" by simp
  from update_monthly_stats_outcome(2)[OF st, of org minutes user_id username] d
  show "monthly_stats (snd (update_monthly_stats org minutes user_id username w)) = monthly_stats w"
    by simp
next
  assume st: "stored_stats w (dt_year (clock w (reads w)), dt_month (clock w (reads w)))
                (clock w (Suc (reads w))) st"
    and d: "disk w (writes w) = DumpFailed"
  from update_monthly_stats_outcome(1)[OF st, of org minutes user_id username] d
  show "\<not> fst (update_monthly_stats org minutes user_id username w)" by simp
  from update_monthly_stats_outcome(2)[OF st, of org minutes user_id username] d
  show "monthly_stats (snd (update_monthly_stats org minutes user_id username w))
            = (monthly_stats w)
                (month_key (dt_year (clock w (reads w)), dt_month (clock w (reads w)))
                   \<mapsto> Corrupt)"
    by simp
qed

theorem fold_session_org_total_witness:
  "fst (update_monthly_stats ''VTK'' 25 (member_id alice) ''alice'' world0)
   \<and> (\<exists>st'. monthly_stats (snd (update_monthly_stats ''VTK'' 25 (member_id alice) ''alice'' world0))
              = [month_key (2025, 3) \<mapsto> Pickled st']
          \<and> organizations st' ''VTK'' = Some 25
          \<and> organizations st' ''Wina'' = Some 0)"
proof -
  have c: "clock world0 (reads world0) = at_time 0" "clock world0 (Suc (reads world0)) = at_time 1"
    and d: "disk world0 (writes world0) = Written"
    and m: "monthly_stats world0 = Map.empty"
    by (simp_all add: world0_def)
  have ym: "dt_year (at_time t) = 2025" "dt_month (at_time t) = 3" for t
    by (simp_all add: at_time_def)
  have s: "stored_stats world0 (2025, 3) (at_time 1) (default_stats (2025, 3) (at_time 1))"
    by (simp add: stored_stats_def m)
  have o: "organizations (default_stats mid t) ''VTK'' = Some 0"
          "organizations (default_stats mid t) ''Wina'' = Some 0" for mid t
    by (simp_all add: default_stats_def ORGANIZATIONS_def)
  from fold_session_org_total [of world0 "''VTK''" 25 "member_id alice" "''alice''"
      "default_stats (2025, 3) (at_time 1)"]
  show ?thesis
    unfolding c ym d m using s by (auto simp: o)
qed

text \<open>
  C7 (as stated) fails: a call whose write fails increases no total. With a disk that
  refuses every \<^verbatim>\<open>open\<close> the call returns \<open>False\<close> and the monthly directory stays empty.
\<close>

theorem fold_session_write_failure:
  "\<not> fst (update_monthly_stats ''VTK'' 25 (member_id alice) ''alice''
            (world0\<lparr>disk := (\<lambda>n. OpenFailed)\<rparr>))
   \<and> monthly_stats (snd (update_monthly_stats ''VTK'' 25 (member_id alice) ''alice''
                           (world0\<lparr>disk := (\<lambda>n. OpenFailed)\<rparr>))) = Map.empty"
  by (simp add: update_monthly_stats_unfold get_monthly_stats_def save_monthly_stats_def
      disk_write_def now_def world0_def Let_def)

section \<open>Settlement\<close>

lemma award_one_not_credited:
  assumes "\<not> credited s cur e item"
  shows "\<exists>acc'. award_one s cur e item (acc, w) = (None, acc', w)
               \<and> credit_details acc' = credit_details acc
               \<and> left_early acc' = left_early acc + (if fst item \<in> set cur then 0 else 1)"
  using assms
  by (cases item)
     (auto simp: award_one_def credited_def Let_def split: sum.splits)

lemma award_one_credited:
  assumes "credited s cur e item" and "credit_details acc2 = credit_details acc"
  shows "fst (award_one s cur e item (acc2, w)) = fst (award_one s cur e item (acc, w))
       \<and> snd (snd (award_one s cur e item (acc2, w))) = snd (snd (award_one s cur e item (acc, w)))
       \<and> credit_details (fst (snd (award_one s cur e item (acc2, w))))
           = credit_details (fst (snd (award_one s cur e item (acc, w))))
       \<and> left_early (fst (snd (award_one s cur e item (acc2, w)))) = left_early acc2
       \<and> left_early (fst (snd (award_one s cur e item (acc, w)))) = left_early acc"
  using assms
  by (cases item)
     (auto simp: award_one_def credited_def Let_def split_def split: sum.splits)

lemma award_loop_filter:
  assumes "credit_details acc2 = credit_details acc"
  shows "fst (award_loop s cur e (filter (credited s cur e) items) (acc2, w))
           = fst (award_loop s cur e items (acc, w))
       \<and> snd (snd (award_loop s cur e (filter (credited s cur e) items) (acc2, w)))
           = snd (snd (award_loop s cur e items (acc, w)))
       \<and> credit_details (fst (snd (award_loop s cur e (filter (credited s cur e) items) (acc2, w))))
           = credit_details (fst (snd (award_loop s cur e items (acc, w))))
       \<and> left_early (fst (snd (award_loop s cur e (filter (credited s cur e) items) (acc2, w))))
           = left_early acc2
       \<and> (fst (award_loop s cur e items (acc, w)) = None \<longrightarrow>
            left_early (fst (snd (award_loop s cur e items (acc, w))))
              = left_early acc + length (filter (\<lambda>item. fst item \<notin> set cur) items))"
  using assms
proof (induction items arbitrary: acc acc2 w)
  case Nil
  then show ?case by simp
next
  case (Cons item items)
  show ?case
  proof (cases "credited s cur e item")
    case False
    from award_one_not_credited[OF False, of acc w]
    obtain acc' where a: "award_one s cur e item (acc, w) = (None, acc', w)"
      and cd: "credit_details acc' = credit_details acc"
      and le: "left_early acc' = left_early acc + (if fst item \<in> set cur then 0 else 1)"
      by blast
    have "credit_details acc2 = credit_details acc'" using Cons.prems cd by simp
    from Cons.IH[OF this, of w] show ?thesis
      using False a le by (auto simp: credited_def)
  next
    case True
    note st = award_one_credited[OF True Cons.prems, of w]
    obtain x a1 w1 where r1: "award_one s cur e item (acc, w) = (x, a1, w1)"
      by (cases "award_one s cur e item (acc, w)") auto
    obtain x2 a2 w2 where r2: "award_one s cur e item (acc2, w) = (x2, a2, w2)"
      by (cases "award_one s cur e item (acc2, w)") auto
    from st r1 r2 have eqs: "x2 = x" "w2 = w1" "credit_details a2 = credit_details a1"
      "left_early a2 = left_early acc2" "left_early a1 = left_early acc"
      by simp_all
    have pres: "fst item \<in> set cur" using True by (simp add: credited_def)
    show ?thesis
    proof (cases x)
      case None
      from Cons.IH[OF eqs(3), of w1] show ?thesis
        using True r1 r2 eqs None pres by simp
    next
      case (Some exc)
      then show ?thesis using True r1 r2 eqs by simp
    qed
  qed
qed

lemma settle_unfold:
  "settle (s, w) =
     award_loop s (map member_id (non_bot_members w (chan s))) (clock w (reads w))
       (participants s) (no_awards, snd (now w))"
  by (simp add: settle_def Let_def now_def)

lemma record_credit_session:
  "chan s' = chan s \<Longrightarrow> record_credit s' e uid data m w = record_credit s e uid data m w"
  by (simp add: record_credit_def)

lemma award_one_session:
  assumes "chan s' = chan s" "duration s' = duration s" "session_start s' = session_start s"
  shows "award_one s' cur e item aw = award_one s cur e item aw"
  unfolding award_one_def assms(2,3) record_credit_session[OF assms(1)] ..

lemma award_loop_session:
  "chan s' = chan s \<Longrightarrow> duration s' = duration s \<Longrightarrow> session_start s' = session_start s \<Longrightarrow>
     award_loop s' cur e items aw = award_loop s cur e items aw"
proof (induction items arbitrary: aw)
  case Nil
  then show ?case by simp
next
  case (Cons item items)
  have "award_one s' cur e item aw = award_one s cur e item aw"
    using Cons.prems by (rule award_one_session)
  with Cons show ?case by (simp split: prod.splits option.splits)
qed

lemma award_one_started:
  "session_start s = Some t0 \<Longrightarrow> fst (award_one s cur e item aw) = None"
  by (cases item; cases aw) (simp add: award_one_def minutes_to_award_def Let_def)

lemma award_loop_started:
  "session_start s = Some t0 \<Longrightarrow> fst (award_loop s cur e items aw) = None"
proof (induction items arbitrary: aw)
  case Nil
  then show ?case by simp
next
  case (Cons item items)
  obtain x aw1 where r: "award_one s cur e item aw = (x, aw1)"
    by (cases "award_one s cur e item aw")
  with award_one_started[OF Cons.prems, of cur e item aw] have "x = None" by simp
  with r Cons show ?case by simp
qed

lemma settle_started:
  "session_start s = Some t0 \<Longrightarrow> fst (settle (s, w)) = None"
  unfolding settle_unfold by (rule award_loop_started)

text \<open>
  C5. The settlement pass leaves the world (session files, monthly statistics, counters)
  and the credit list exactly as a pass over the credited participants alone does, those
  present in the snapshot with a positive award: a participant absent from the snapshot,
  or present with an award of 0, gets no credit entry, no session file and no fold into
  the monthly statistics. The absent ones, and only they, are counted in \<open>left_early\<close>.
\<close>

theorem settlement_only_credited:
  "fst (settle (s\<lparr>participants :=
           filter (credited s (map member_id (non_bot_members w (chan s))) (clock w (reads w)))
                  (participants s)\<rparr>, w)) = fst (settle (s, w))
   \<and> snd (snd (settle (s\<lparr>participants :=
           filter (credited s (map member_id (non_bot_members w (chan s))) (clock w (reads w)))
                  (participants s)\<rparr>, w))) = snd (snd (settle (s, w)))
   \<and> credit_details (fst (snd (settle (s\<lparr>participants :=
           filter (credited s (map member_id (non_bot_members w (chan s))) (clock w (reads w)))
                  (participants s)\<rparr>, w)))) = credit_details (fst (snd (settle (s, w))))
   \<and> left_early (fst (snd (settle (s\<lparr>participants :=
           filter (credited s (map member_id (non_bot_members w (chan s))) (clock w (reads w)))
                  (participants s)\<rparr>, w)))) = 0
   \<and> (fst (settle (s, w)) = None \<longrightarrow>
        left_early (fst (snd (settle (s, w))))
          = length (filter (\<lambda>item. fst item \<notin> set (map member_id (non_bot_members w (chan s))))
                      (participants s)))"
proof -
  let ?cur = "map member_id (non_bot_members w (chan s))"
  let ?e = "clock w (reads w)"
  let ?s' = "s\<lparr>participants := filter (credited s ?cur ?e) (participants s)\<rparr>"
  define r where "r = award_loop s ?cur ?e (participants s) (no_awards, snd (now w))"
  define r2 where
    "r2 = award_loop s ?cur ?e (filter (credited s ?cur ?e) (participants s)) (no_awards, snd (now w))"
  have s1: "settle (s, w) = r"
    unfolding settle_unfold r_def ..
  have "award_loop ?s' ?cur ?e (filter (credited s ?cur ?e) (participants s)) (no_awards, snd (now w)) = r2"
    unfolding r2_def by (rule award_loop_session) simp_all
  then have s2: "settle (?s', w) = r2"
    unfolding settle_unfold by simp
  have z: "left_early no_awards = 0" by (simp add: no_awards_def)
  note main = award_loop_filter[OF refl, of s ?cur ?e "participants s" no_awards "snd (now w)",
      folded r_def r2_def, unfolded z]
  show ?thesis
    unfolding s1 s2 using main by simp
qed

lemma alice_session_facts:
  "session_start alice_session = Some (at_time 0)"
  "participants alice_session = [(member_id alice,
      \<lparr>user = alice, organization = ''VTK'', join_time = at_time 0, late_join = False\<rparr>)]"
  "non_bot_members world0 (chan alice_session) = []"
  by (simp_all add: alice_session_def PomodoroSession_def non_bot_members_def world0_def)

theorem settlement_only_credited_witness:
  "left_early (fst (snd (settle (alice_session, world0)))) = 1
   \<and> snd (snd (settle (alice_session\<lparr>participants := []\<rparr>, world0)))
       = snd (snd (settle (alice_session, world0)))"
proof -
  have n: "fst (settle (alice_session, world0)) = None"
    by (rule settle_started) (rule alice_session_facts(1))
  from settlement_only_credited [of alice_session world0] n
  show ?thesis
    by (simp add: alice_session_facts credited_def)
qed





lemma record_credit_unfold:
  "record_credit s study_end user_id data minutes w =
     snd (update_monthly_stats (organization data) minutes user_id (member_name (user data))
            (snd (save_study_session
                    \<lparr>doc_user_id = str_nat user_id,
                     doc_username = member_name (user data),
                     doc_organization = organization data,
                     doc_session_start = join_time data,
                     doc_session_end = study_end,
                     duration_minutes = minutes,
                     doc_month = dt_month (clock w (reads w)),
                     doc_year = dt_year (clock w (Suc (reads w))),
                     doc_channel_name = channel_name (chan s),
                     doc_late_join = late_join data,
                     completed = True\<rparr>
                    (w\<lparr>reads := Suc (Suc (reads w))\<rparr>))))"
  by (simp add: record_credit_def now_def Let_def)




section \<open>What suspensions leave unchanged\<close>

lemma stable_refl [simp]: "stable s s"
  by (simp add: stable_def)

lemma stable_trans: "stable s s1 \<Longrightarrow> stable s1 s2 \<Longrightarrow> stable s s2"
  by (auto simp: stable_def intro: prefix_order.trans)

lemma time_passes_refl [simp]: "time_passes w w"
  by (simp add: time_passes_def)

lemma time_passes_trans: "time_passes w w1 \<Longrightarrow> time_passes w1 w2 \<Longrightarrow> time_passes w w2"
  by (simp add: time_passes_def)

lemma steady_refl [simp]: "steady sw sw"
  by (simp add: steady_def)

lemma steady_trans: "steady sw sw1 \<Longrightarrow> steady sw1 sw2 \<Longrightarrow> steady sw sw2"
  unfolding steady_def by (blast intro: stable_trans time_passes_trans)

lemma steadyI: "stable s s' \<Longrightarrow> time_passes w w' \<Longrightarrow> steady (s, w) (s', w')"
  by (simp add: steady_def)

lemma now_time_passes: "time_passes w (snd (now w))"
  by (simp add: time_passes_def now_def)

lemma library_call_time: "time_passes w (snd (library_call w))"
  by (simp add: time_passes_def library_call_def)

lemma add_participant_steady:
  "add_participant m (s, w) = (e, s', w') \<Longrightarrow> steady (s, w) (s', w')"
  by (auto simp: add_participant_def steady_def stable_def time_passes_def Let_def now_def
      split: if_splits option.splits)

lemma add_participant_started:
  "session_start s = Some t0 \<Longrightarrow> fst (add_participant m (s, w)) = None"
  by (simp add: add_participant_def Let_def now_def)

lemma monitor_scan_steady:
  "monitor_scan ms (s, w) = (e, s', w') \<Longrightarrow> steady (s, w) (s', w')"
proof (induction ms arbitrary: s w)
  case Nil
  then show ?case by simp
next
  case (Cons m ms)
  show ?case
  proof (cases "member_id m \<in> fst ` set (participants s)")
    case True
    with Cons show ?thesis by simp
  next
    case False
    obtain e1 s1 w1 where a: "add_participant m (s, w) = (e1, s1, w1)"
      by (cases "add_participant m (s, w)") auto
    have p1: "steady (s, w) (s1, w1)"
      using a by (rule add_participant_steady)
    let ?w2 = "snd (library_call (snd (now w1)))"
    have "time_passes w1 ?w2"
      by (rule time_passes_trans[OF now_time_passes library_call_time])
    then have p2: "steady (s1, w1) (s1, ?w2)" by (simp add: steady_def)
    show ?thesis
    proof (cases e1)
      case None
      show ?thesis
      proof (cases "fst (library_call (snd (now w1)))")
        case True
        with Cons.prems False a None have "(s', w') = (s1, ?w2)" by simp
        with steady_trans[OF p1 p2] show ?thesis by simp
      next
        case nf: False
        with Cons.prems False a None
        have "monitor_scan ms (s1, ?w2) = (e, s', w')" by simp
        from steady_trans[OF p1 p2] Cons.IH[OF this] show ?thesis by (rule steady_trans)
      qed
    next
      case (Some x)
      with Cons.prems False a have "(s', w') = (s1, w1)" by simp
      with p1 show ?thesis by simp
    qed
  qed
qed

lemma monitor_iteration_steady: "steady sw (monitor_iteration sw)"
proof -
  obtain s w where sw: "sw = (s, w)" by (cases sw)
  obtain e s1 w1 where a: "monitor_scan (non_bot_members w (chan s)) (s, w) = (e, s1, w1)"
    by (cases "monitor_scan (non_bot_members w (chan s)) (s, w)") auto
  from monitor_scan_steady[OF a] a show ?thesis
    by (cases e) (simp_all add: sw monitor_iteration_def monitor_loop_head_def steady_def stable_def)
qed

lemma world_event_time: "time_passes w (world_event ev w)"
  by (cases ev) (simp_all add: time_passes_def)

lemma handle_event_steady: "steady sw (handle_event ev sw)"
proof (cases sw)
  case (Pair s w)
  then show ?thesis
    using monitor_iteration_steady[of "(s, w)"] world_event_time[of w ev]
    by (cases ev) (simp_all add: steady_def)
qed

lemma events_steady: "steady sw (fold handle_event evs sw)"
proof (induction evs arbitrary: sw)
  case Nil
  then show ?case by simp
next
  case (Cons ev evs)
  have "steady sw (handle_event ev sw)" by (rule handle_event_steady)
  moreover have "steady (handle_event ev sw) (fold handle_event evs (handle_event ev sw))"
    by (rule Cons.IH)
  ultimately have "steady sw (fold handle_event evs (handle_event ev sw))"
    by (rule steady_trans)
  then show ?case by simp
qed

lemma suspend_unfold:
  "suspend (s, w) =
     fold handle_event (schedule w (awaits w))
       (if monitor_task s = Created then monitor_loop_head s else s, w\<lparr>awaits := Suc (awaits w)\<rparr>)"
  by (simp add: suspend_def Let_def)

lemma suspend_steady: "steady sw (suspend sw)"
proof (cases sw)
  case (Pair s w)
  let ?s1 = "if monitor_task s = Created then monitor_loop_head s else s"
  let ?w1 = "w\<lparr>awaits := Suc (awaits w)\<rparr>"
  have a: "steady (s, w) (?s1, ?w1)"
    by (simp add: monitor_loop_head_def steady_def stable_def time_passes_def)
  have b: "steady (?s1, ?w1) (fold handle_event (schedule w (awaits w)) (?s1, ?w1))"
    by (rule events_steady)
  from steady_trans[OF a b] show ?thesis
    unfolding Pair suspend_unfold .
qed

lemma send_unfold:
  "send (s, w) = (send_fails w (sends w), suspend (s, w\<lparr>sends := Suc (sends w)\<rparr>))"
  by (simp add: send_def library_call_def)

lemma send_steady: "steady sw (snd (send sw))"
proof (cases sw)
  case (Pair s w)
  have a: "steady (s, w) (s, w\<lparr>sends := Suc (sends w)\<rparr>)"
    by (simp add: steady_def time_passes_def)
  from steady_trans[OF a suspend_steady] show ?thesis
    unfolding Pair send_unfold by simp
qed

lemma guarded_send_steady: "steady sw (guarded_send sw)"
  unfolding guarded_send_def by (rule send_steady)

lemma timer_loop_steady: "steady sw (timer_loop ticks sw)"
proof (induction ticks arbitrary: sw)
  case Nil
  then show ?case by simp
next
  case (Cons t ticks)
  show ?case
  proof (cases "is_running (fst sw)")
    case False
    then show ?thesis by simp
  next
    case True
    have a: "steady sw (guarded_send sw)" by (rule guarded_send_steady)
    have b: "steady (guarded_send sw) (suspend (guarded_send sw))" by (rule suspend_steady)
    have c: "steady (suspend (guarded_send sw)) (timer_loop ticks (suspend (guarded_send sw)))"
      by (rule Cons.IH)
    from steady_trans[OF steady_trans[OF a b] c] True show ?thesis by simp
  qed
qed

lemma steady_running: "steady sw sw' \<Longrightarrow> is_running (fst sw') = is_running (fst sw)"
  by (simp add: steady_def stable_def)

lemma steady_fails: "steady sw sw' \<Longrightarrow> send_fails (snd sw') = send_fails (snd sw)"
  by (simp add: steady_def time_passes_def)

lemma study_period_unfold:
  "study_period (s, w) =
     (let r = send (s\<lparr>is_study_period := True, phases := phases s @ [Studying]\<rparr>, w)
      in if fst r then (Some HTTPException, snd r)
         else (let sw3 = timer_loop (py_range (duration (fst (snd r)) * 60) 30) (snd r);
                   s4 = (fst sw3)\<lparr>is_study_period := False\<rparr>
               in if is_running s4 then (None, guarded_send (s4, snd sw3))
                  else (None, s4, snd sw3)))"
  by (simp add: study_period_def Let_def split_def)

lemma study_period_outcome:
  "steady (s\<lparr>phases := phases s @ [Studying]\<rparr>, w) (snd (study_period (s, w)))
   \<and> fst (study_period (s, w))
       = (if send_fails w (sends w) then Some HTTPException else None)"
proof -
  let ?s0 = "s\<lparr>phases := phases s @ [Studying]\<rparr>"
  let ?s1 = "s\<lparr>is_study_period := True, phases := phases s @ [Studying]\<rparr>"
  let ?r = "send (?s1, w)"
  let ?sw3 = "timer_loop (py_range (duration (fst (snd ?r)) * 60) 30) (snd ?r)"
  let ?s4 = "(fst ?sw3)\<lparr>is_study_period := False\<rparr>"
  have f: "fst ?r = send_fails w (sends w)" by (simp add: send_unfold)
  have a: "steady (?s0, w) (?s1, w)" by (simp add: steady_def stable_def)
  have b: "steady (?s1, w) (snd ?r)" by (rule send_steady)
  have c: "steady (snd ?r) ?sw3" by (rule timer_loop_steady)
  have d: "steady ?sw3 (?s4, snd ?sw3)" by (simp add: steady_def stable_def)
  have e: "steady (?s4, snd ?sw3) (guarded_send (?s4, snd ?sw3))" by (rule guarded_send_steady)
  have s2: "steady (?s0, w) (snd ?r)" by (rule steady_trans[OF a b])
  have s4: "steady (?s0, w) (?s4, snd ?sw3)"
    by (rule steady_trans[OF steady_trans[OF s2 c] d])
  have s5: "steady (?s0, w) (guarded_send (?s4, snd ?sw3))" by (rule steady_trans[OF s4 e])
  show ?thesis
    unfolding study_period_unfold Let_def using s2 s4 s5 f by simp
qed

lemma save_study_session_time: "time_passes w (snd (save_study_session d w))"
  by (simp add: save_study_session_def now_def disk_write_def Let_def time_passes_def
      split: write_outcome.splits)

lemma update_monthly_stats_time:
  "time_passes w (snd (update_monthly_stats org minutes user_id username w))"
  by (simp add: update_monthly_stats_def get_monthly_stats_def save_monthly_stats_def
      now_def disk_write_def Let_def time_passes_def
      split: option.splits stored.splits write_outcome.splits)

lemma record_credit_time: "time_passes w (record_credit s e uid data m w)"
proof -
  have "time_passes w (w\<lparr>reads := Suc (Suc (reads w))\<rparr>)" by (simp add: time_passes_def)
  from time_passes_trans[OF time_passes_trans[OF this save_study_session_time]
      update_monthly_stats_time]
  show ?thesis unfolding record_credit_unfold .
qed

lemma award_one_time: "time_passes (snd aw) (snd (snd (award_one s cur e item aw)))"
  using record_credit_time
  by (cases item; cases aw) (simp add: award_one_def Let_def split: sum.splits)

lemma award_loop_time: "time_passes (snd aw) (snd (snd (award_loop s cur e items aw)))"
proof (induction items arbitrary: aw)
  case Nil
  then show ?case by simp
next
  case (Cons item items)
  obtain x aw1 where r: "award_one s cur e item aw = (x, aw1)"
    by (cases "award_one s cur e item aw")
  from award_one_time[of aw s cur e item] r have t: "time_passes (snd aw) (snd aw1)"
    by simp
  show ?case
  proof (cases x)
    case None
    from time_passes_trans[OF t Cons.IH[of aw1]] r None show ?thesis by simp
  next
    case (Some a)
    with t r show ?thesis by simp
  qed
qed

lemma settle_time: "time_passes w (snd (snd (settle (s, w))))"
proof -
  have "time_passes (snd (now w))
          (snd (snd (award_loop s (map member_id (non_bot_members w (chan s))) (clock w (reads w))
                       (participants s) (no_awards, snd (now w)))))"
    using award_loop_time[of "(no_awards, snd (now w))"] by simp
  from time_passes_trans[OF now_time_passes this] show ?thesis
    unfolding settle_unfold .
qed

lemma award_credit_outcome:
  assumes "is_running s" and "session_start s = Some t0"
  shows "steady (s\<lparr>phases := phases s @ [Settling]\<rparr>, w) (snd (award_credit (s, w)))"
    and "fst (award_credit (s, w)) = None \<or> fst (award_credit (s, w)) = Some HTTPException"
    and "(\<forall>n. \<not> send_fails w n) \<Longrightarrow> fst (award_credit (s, w)) = None"
proof -
  let ?s1 = "s\<lparr>phases := phases s @ [Settling]\<rparr>"
  obtain x acc w2 where r: "settle (?s1, w) = (x, acc, w2)"
    by (cases "settle (?s1, w)") auto
  have "session_start ?s1 = Some t0" using assms(2) by simp
  from settle_started[OF this, of w] r have x: "x = None" by simp
  from settle_time[of w ?s1] r have t: "time_passes w w2" by simp
  have eq: "award_credit (s, w) =
              (if awarded_users acc \<noteq> []
               then (if fst (send (?s1, w2)) then Some HTTPException else None, snd (send (?s1, w2)))
               else (None, ?s1, w2))"
    using assms(1) r x by (simp add: award_credit_def Let_def split_def)
  have a: "steady (?s1, w) (?s1, w2)" using t by (simp add: steady_def)
  have b: "steady (?s1, w) (snd (send (?s1, w2)))"
    by (rule steady_trans[OF a send_steady])
  show "steady (?s1, w) (snd (award_credit (s, w)))"
    unfolding eq using a b by simp
  show "fst (award_credit (s, w)) = None \<or> fst (award_credit (s, w)) = Some HTTPException"
    unfolding eq by simp
  assume "\<forall>n. \<not> send_fails w n"
  then have "\<not> fst (send (?s1, w2))"
    using t by (simp add: send_unfold time_passes_def)
  then show "fst (award_credit (s, w)) = None"
    unfolding eq by simp
qed

lemma break_period_unfold:
  "is_running s \<Longrightarrow>
   break_period (s, w) =
     (let r = send (s\<lparr>phases := phases s @ [OnBreak]\<rparr>, w)
      in if fst r then (Some HTTPException, snd r)
         else (let sw3 = timer_loop (py_range (break_time (fst (snd r)) * 60) 15) (snd r)
               in if is_running (fst sw3)
                  then (if \<not> fst (send sw3) \<and> non_bot_members (snd sw3) (chan (fst sw3)) \<noteq> []
                        then (None, guarded_send (snd (send sw3)))
                        else (None, snd (send sw3)))
                  else (None, sw3)))"
  by (simp add: break_period_def Let_def split_def)

lemma break_period_outcome:
  assumes "is_running s"
  shows "steady (s\<lparr>phases := phases s @ [OnBreak]\<rparr>, w) (snd (break_period (s, w)))
       \<and> fst (break_period (s, w))
           = (if send_fails w (sends w) then Some HTTPException else None)"
proof -
  let ?s1 = "s\<lparr>phases := phases s @ [OnBreak]\<rparr>"
  let ?r = "send (?s1, w)"
  let ?sw3 = "timer_loop (py_range (break_time (fst (snd ?r)) * 60) 15) (snd ?r)"
  let ?sw4 = "snd (send ?sw3)"
  have f: "fst ?r = send_fails w (sends w)" by (simp add: send_unfold)
  have b: "steady (?s1, w) (snd ?r)" by (rule send_steady)
  have c: "steady (snd ?r) ?sw3" by (rule timer_loop_steady)
  have d: "steady ?sw3 ?sw4" by (rule send_steady)
  have e: "steady ?sw4 (guarded_send ?sw4)" by (rule guarded_send_steady)
  have s3: "steady (?s1, w) ?sw3" by (rule steady_trans[OF b c])
  have s4: "steady (?s1, w) ?sw4" by (rule steady_trans[OF s3 d])
  have s5: "steady (?s1, w) (guarded_send ?sw4)" by (rule steady_trans[OF s4 e])
  show ?thesis
    unfolding break_period_unfold[OF assms] Let_def using b s3 s4 s5 f by simp
qed

lemma add_participants_steady:
  "add_participants ms (s, w) = (e, s', w') \<Longrightarrow> steady (s, w) (s', w')"
proof (induction ms arbitrary: s w)
  case Nil
  then show ?case by simp
next
  case (Cons m ms)
  obtain e1 s1 w1 where a: "add_participant m (s, w) = (e1, s1, w1)"
    by (cases "add_participant m (s, w)") auto
  have p1: "steady (s, w) (s1, w1)" using a by (rule add_participant_steady)
  show ?case
  proof (cases e1)
    case None
    with Cons.prems a have "add_participants ms (s1, w1) = (e, s', w')" by simp
    from p1 Cons.IH[OF this] show ?thesis by (rule steady_trans)
  next
    case (Some x)
    with Cons.prems a have "(s', w') = (s1, w1)" by simp
    with p1 show ?thesis by simp
  qed
qed

lemma add_participants_started:
  "session_start s = Some t0 \<Longrightarrow> fst (add_participants ms (s, w)) = None"
proof (induction ms arbitrary: s w)
  case Nil
  then show ?case by simp
next
  case (Cons m ms)
  obtain e1 s1 w1 where a: "add_participant m (s, w) = (e1, s1, w1)"
    by (cases "add_participant m (s, w)") auto
  from add_participant_started[OF Cons.prems, of m w] a have e1: "e1 = None" by simp
  from add_participant_steady[OF a] Cons.prems have "session_start s1 = Some t0"
    by (simp add: steady_def stable_def)
  from Cons.IH[OF this, of w1] a e1 show ?case by simp
qed

section \<open>Control flow of a session\<close>


lemma start_occupied:
  assumes occ: "non_bot_members w (chan s) \<noteq> []" and run: "is_running s"
  shows "\<exists>k s6 w6.
           1 \<le> k \<and> k \<le> 5
         \<and> phases (fst (snd (start (s, w))))
             = phases s @ take k [Starting, Studying, Settling, OnBreak, Completed]
         \<and> fst (start (s, w)) = (if k = 5 then None else Some HTTPException)
         \<and> (k < 5 \<longrightarrow> (\<exists>n. send_fails w n))
         \<and> session_start (fst (snd (start (s, w)))) = Some (clock w (reads w))
         \<and> prefix (participants (fst (snd (add_participants (non_bot_members w (chan s))
                      (s\<lparr>phases := phases s @ [Starting],
                         session_start := Some (clock w (reads w))\<rparr>, snd (now w))))))
                  (participants (fst (snd (start (s, w)))))
         \<and> (k = 5 \<longrightarrow> is_running s6 \<and> time_passes w w6
                \<and> snd (snd (start (s, w))) = snd (snd (break_period (s6, w6))))"
proof -
  let ?t = "clock w (reads w)"
  let ?s1 = "s\<lparr>phases := phases s @ [Starting], session_start := Some ?t\<rparr>"
  let ?seed = "add_participants (non_bot_members w (chan s)) (?s1, snd (now w))"
  obtain x s2 w2 where seed0: "?seed = (x, s2, w2)" by (cases ?seed) auto
  have "session_start ?s1 = Some ?t" by simp
  from add_participants_started[OF this, of "non_bot_members w (chan s)" "snd (now w)"] seed0
  have x: "x = None" by simp
  have seed: "?seed = (None, s2, w2)" using seed0 x by simp
  have goal: ?thesis
    if "start (s, w) = (e, s', w')" and "1 \<le> k" and "k \<le> 5"
      and "phases s' = phases s @ take k [Starting, Studying, Settling, OnBreak, Completed]"
      and "e = (if k = 5 then None else Some HTTPException)"
      and "k < 5 \<longrightarrow> (\<exists>n. send_fails w n)"
      and "session_start s' = Some ?t"
      and "prefix (participants s2) (participants s')"
      and "k = 5 \<longrightarrow> is_running s6 \<and> time_passes w w6 \<and> w' = snd (snd (break_period (s6, w6)))"
    for k e s' w' s6 w6
    unfolding that(1) seed fst_conv snd_conv
    using that(2-) by (intro exI[of _ k] exI[of _ s6] exI[of _ w6]) simp
  have st2: "steady (?s1, snd (now w)) (s2, w2)"
    using seed by (rule add_participants_steady)
  have t2: "time_passes w w2"
    using time_passes_trans[OF now_time_passes, of w w2] st2 by (simp add: steady_def)
  have ph2: "phases s2 = phases s @ [Starting]" and ss2: "session_start s2 = Some ?t"
    and run2: "is_running s2"
    using st2 run by (simp_all add: steady_def stable_def)
  obtain f3 s3 w3 where r3: "send (s2, w2) = (f3, s3, w3)"
    by (cases "send (s2, w2)") auto
  have f3: "f3 = send_fails w (sends w2)"
    using r3 t2 by (simp add: send_unfold time_passes_def)
  have st3: "steady (s2, w2) (s3, w3)"
    using send_steady[of "(s2, w2)"] r3 by simp
  have t3: "time_passes w w3"
    using time_passes_trans[OF t2, of w3] st3 by (simp add: steady_def)
  have ph3: "phases s3 = phases s @ [Starting]" and ss3: "session_start s3 = Some ?t"
    and run3: "is_running s3" and pr3: "prefix (participants s2) (participants s3)"
    using st3 ph2 ss2 run2 by (simp_all add: steady_def stable_def)
  show ?thesis
  proof (cases f3)
    case True
    have eq: "start (s, w) = (Some HTTPException, s3, w3)"
      using occ seed r3 True by (simp add: start_def Let_def now_def)
    have fl: "\<exists>n. send_fails w n" using True f3 by blast
    show ?thesis
      by (rule goal[of _ _ _ 1, OF eq]) (simp_all add: ph3 ss3 pr3 fl)
  next
    case nf3: False
    let ?s4 = "s3\<lparr>monitor_task := Created\<rparr>"
    obtain e5 s5 w5 where sp: "study_period (?s4, w3) = (e5, s5, w5)"
      by (cases "study_period (?s4, w3)") auto
    from study_period_outcome[of ?s4 w3] sp
    have st5: "steady (?s4\<lparr>phases := phases ?s4 @ [Studying]\<rparr>, w3) (s5, w5)"
      and e5: "e5 = (if send_fails w3 (sends w3) then Some HTTPException else None)"
      by simp_all
    have t5: "time_passes w w5"
      using time_passes_trans[OF t3, of w5] st5 by (simp add: steady_def)
    have ph5: "phases s5 = phases s @ [Starting, Studying]"
      and ss5: "session_start s5 = Some ?t"
      and run5: "is_running s5" and pr5: "prefix (participants s2) (participants s5)"
      using st5 ph3 ss3 run3 pr3
      by (auto simp: steady_def stable_def intro: prefix_order.trans)
    show ?thesis
    proof (cases e5)
      case (Some a)
      with e5 have a: "a = HTTPException" and "send_fails w3 (sends w3)"
        by (simp_all split: if_splits)
      then have fl: "\<exists>n. send_fails w n"
        using t3 by (auto simp: time_passes_def)
      have eq: "start (s, w) = (Some HTTPException, s5, w5)"
        using occ seed r3 nf3 sp Some a by (simp add: start_def Let_def now_def)
      show ?thesis
        by (rule goal[of _ _ _ 2, OF eq]) (simp_all add: ph5 ss5 pr5 fl)
    next
      case n5: None
      obtain e6 s6 w6 where ac: "award_credit (s5, w5) = (e6, s6, w6)"
        by (cases "award_credit (s5, w5)") auto
      from award_credit_outcome[OF run5 ss5, of w5] ac
      have st6: "steady (s5\<lparr>phases := phases s5 @ [Settling]\<rparr>, w5) (s6, w6)"
        and e6: "e6 = None \<or> e6 = Some HTTPException"
        and ok6: "(\<forall>n. \<not> send_fails w5 n) \<Longrightarrow> e6 = None"
        by simp_all
      have t6: "time_passes w w6"
        using time_passes_trans[OF t5, of w6] st6 by (simp add: steady_def)
      have ph6: "phases s6 = phases s @ [Starting, Studying, Settling]"
        and ss6: "session_start s6 = Some ?t"
        and run6: "is_running s6" and pr6: "prefix (participants s2) (participants s6)"
        using st6 ph5 ss5 run5 pr5
        by (auto simp: steady_def stable_def intro: prefix_order.trans)
      show ?thesis
      proof (cases e6)
        case (Some a)
        with e6 have a: "a = HTTPException" by simp
        have "\<exists>n. send_fails w5 n" using ok6 Some by auto
        then have fl: "\<exists>n. send_fails w n"
          using t5 by (simp add: time_passes_def)
        have eq: "start (s, w) = (Some HTTPException, s6, w6)"
          using occ seed r3 nf3 sp n5 ac Some a by (simp add: start_def Let_def now_def)
        show ?thesis
          by (rule goal[of _ _ _ 3, OF eq]) (simp_all add: ph6 ss6 pr6 fl)
      next
        case n6: None
        obtain e7 s7 w7 where bp: "break_period (s6, w6) = (e7, s7, w7)"
          by (cases "break_period (s6, w6)") auto
        from break_period_outcome[OF run6, of w6] bp
        have st7: "steady (s6\<lparr>phases := phases s6 @ [OnBreak]\<rparr>, w6) (s7, w7)"
          and e7: "e7 = (if send_fails w6 (sends w6) then Some HTTPException else None)"
          by simp_all
        have ph7: "phases s7 = phases s @ [Starting, Studying, Settling, OnBreak]"
          and ss7: "session_start s7 = Some ?t"
          and pr7: "prefix (participants s2) (participants s7)"
          using st7 ph6 ss6 pr6
          by (auto simp: steady_def stable_def intro: prefix_order.trans)
        show ?thesis
        proof (cases e7)
          case (Some a)
          with e7 have a: "a = HTTPException" and "send_fails w6 (sends w6)"
            by (simp_all split: if_splits)
          then have fl: "\<exists>n. send_fails w n"
            using t6 by (auto simp: time_passes_def)
          have eq: "start (s, w) = (Some HTTPException, s7, w7)"
            using occ seed r3 nf3 sp n5 ac n6 bp Some a
            by (simp add: start_def Let_def now_def)
          show ?thesis
            by (rule goal[of _ _ _ 4, OF eq]) (simp_all add: ph7 ss7 pr7 fl)
        next
          case n7: None
          have eq: "start (s, w) =
                      (None, s7\<lparr>is_running := False, monitor_task := Done,
                                phases := phases s7 @ [Completed]\<rparr>, w7)"
            using occ seed r3 nf3 sp n5 ac n6 bp n7
            by (simp add: start_def Let_def now_def)
          have w7: "w7 = snd (snd (break_period (s6, w6)))" using bp by simp
          show ?thesis
            by (rule goal[of _ _ _ 5 s6 w6, OF eq]) (simp_all add: ph7 ss7 pr7 run6 t6 w7)
        qed
      qed
    qed
  qed
qed




lemma open_world_occupied:
  "non_bot_members open_world library = [alice, bob]"
  "non_bot_members deserted_world library = [alice, bob]"
  by (simp_all add: non_bot_members_def open_world_def deserted_world_def world0_def
      library_def alice_def bob_def)




lemma add_participant_new:
  assumes "member_id m \<notin> fst ` set (participants s)" and "session_start s = Some t0"
  shows "add_participant m (s, w) =
           (None,
            s\<lparr>participants := participants s @
                 [(member_id m,
                   \<lparr>user = m, organization = get_user_org m, join_time = clock w (reads w),
                    late_join = (usec t0 < usec (clock w (reads w)))\<rparr>)]\<rparr>,
            w\<lparr>reads := Suc (reads w)\<rparr>)"
  using assms by (simp add: add_participant_def now_def Let_def)

lemma seed_two:
  assumes "participants s = []" and "session_start s = Some t0" and "member_id a \<noteq> member_id b"
  shows "participants (fst (snd (add_participants [a, b] (s, w)))) =
           [(member_id a,
             \<lparr>user = a, organization = get_user_org a, join_time = clock w (reads w),
              late_join = (usec t0 < usec (clock w (reads w)))\<rparr>),
            (member_id b,
             \<lparr>user = b, organization = get_user_org b, join_time = clock w (Suc (reads w)),
              late_join = (usec t0 < usec (clock w (Suc (reads w))))\<rparr>)]"
proof -
  let ?pa = "\<lparr>user = a, organization = get_user_org a, join_time = clock w (reads w),
              late_join = (usec t0 < usec (clock w (reads w)))\<rparr>"
  let ?s1 = "s\<lparr>participants := participants s @ [(member_id a, ?pa)]\<rparr>"
  let ?w1 = "w\<lparr>reads := Suc (reads w)\<rparr>"
  have a: "add_participant a (s, w) = (None, ?s1, ?w1)"
    using assms(1,2) by (intro add_participant_new) simp_all
  have "member_id b \<notin> fst ` set (participants ?s1)" and "session_start ?s1 = Some t0"
    using assms by auto
  from add_participant_new[OF this, of ?w1]
  have b: "add_participant b (?s1, ?w1) =
             (None, ?s1\<lparr>participants := participants ?s1 @
                [(member_id b,
                  \<lparr>user = b, organization = get_user_org b, join_time = clock w (Suc (reads w)),
                   late_join = (usec t0 < usec (clock w (Suc (reads w))))\<rparr>)]\<rparr>,
              ?w1\<lparr>reads := Suc (reads ?w1)\<rparr>)"
    by simp
  show ?thesis
    unfolding add_participants.simps a prod.case option.case b by (simp add: assms(1))
qed

text \<open>
  C4. \<open>add_participant\<close> reads the clock again for every member instead of taking
  \<open>session_start\<close>: with a clock that advances by a microsecond per reading, the two
  members seeded by \<open>start\<close> get the join times 1 and 2, not the session start 0, and both
  are flagged as late joiners.
\<close>

theorem seeded_participants_flagged_late:
  "session_start (fst (snd (start (PomodoroSession library 25 5, open_world)))) = Some (at_time 0)
   \<and> map (\<lambda>(uid, p). (uid, late_join p, usec (join_time p)))
         (take 2 (participants (fst (snd (start (PomodoroSession library 25 5, open_world))))))
       = [(member_id alice, True, 1), (member_id bob, True, 2)]"
proof -
  let ?s = "PomodoroSession library 25 5"
  let ?s1 = "?s\<lparr>phases := phases ?s @ [Starting],
                 session_start := Some (clock open_world (reads open_world))\<rparr>"
  have nb: "non_bot_members open_world (chan ?s) = [alice, bob]"
    by (simp add: PomodoroSession_def open_world_occupied)
  have o: "non_bot_members open_world (chan ?s) \<noteq> []"
    unfolding nb by simp
  have r: "is_running ?s"
    by (simp add: PomodoroSession_def)
  have c: "clock open_world (reads open_world) = at_time 0"
          "clock (snd (now open_world)) (reads (snd (now open_world))) = at_time 1"
          "clock (snd (now open_world)) (Suc (reads (snd (now open_world)))) = at_time 2"
    by (simp_all add: open_world_def world0_def now_def)
  have ids: "member_id alice \<noteq> member_id bob"
    by (simp add: alice_def bob_def)
  have "participants ?s1 = []" and "session_start ?s1 = Some (at_time 0)"
    by (simp_all add: PomodoroSession_def c)
  from seed_two[OF this ids, of "snd (now open_world)"]
  have seed: "map (\<lambda>(uid, p). (uid, late_join p, usec (join_time p)))
                (participants (fst (snd (add_participants [alice, bob] (?s1, snd (now open_world))))))
              = [(member_id alice, True, 1), (member_id bob, True, 2)]"
    unfolding c by (simp add: at_time_def)
  from start_occupied[OF o r] have
    ss: "session_start (fst (snd (start (?s, open_world)))) = Some (at_time 0)"
    and pr: "prefix (participants (fst (snd (add_participants [alice, bob] (?s1, snd (now open_world))))))
                    (participants (fst (snd (start (?s, open_world)))))"
    unfolding nb c(1) by blast+
  have len: "length (participants (fst (snd (add_participants [alice, bob] (?s1, snd (now open_world)))))) = 2"
    using arg_cong[OF seed, of length] by simp
  from pr obtain zs where
    "participants (fst (snd (start (?s, open_world)))) =
       participants (fst (snd (add_participants [alice, bob] (?s1, snd (now open_world))))) @ zs"
    by (auto simp: prefix_def)
  then have "take 2 (participants (fst (snd (start (?s, open_world))))) =
       participants (fst (snd (add_participants [alice, bob] (?s1, snd (now open_world)))))"
    using len by simp
  then show ?thesis using ss seed by simp
qed

section \<open>Admission and retirement\<close>

lemma world_events_frame:
  "list_all (\<lambda>ev. \<not> elsewhere ev) evs \<Longrightarrow>
     active_sessions (fold world_event evs w) = active_sessions w
   \<and> study_sessions (fold world_event evs w) = study_sessions w
   \<and> monthly_stats (fold world_event evs w) = monthly_stats w"
proof (induction evs arbitrary: w)
  case Nil
  then show ?case by simp
next
  case (Cons ev evs)
  then show ?case by (cases ev) simp_all
qed

lemma world_events_counters:
  "awaits (fold world_event evs w) = awaits w
   \<and> schedule (fold world_event evs w) = schedule w"
proof (induction evs arbitrary: w)
  case Nil
  then show ?case by simp
next
  case (Cons ev evs)
  then show ?case by (cases ev) simp_all
qed

lemma await_plain_unfold:
  "await_plain w =
     (send_fails w (sends w),
      fold world_event (schedule w (awaits w))
        (w\<lparr>sends := Suc (sends w), awaits := Suc (awaits w)\<rparr>))"
  by (simp add: await_plain_def library_call_def)

lemma await_plain_counters:
  "awaits (snd (await_plain w)) = Suc (awaits w)"
  "schedule (snd (await_plain w)) = schedule w"
  by (simp_all add: await_plain_unfold world_events_counters)

lemma await_plain_frame:
  assumes "undisturbed w (awaits w)"
  shows "active_sessions (snd (await_plain w)) = active_sessions w"
    and "study_sessions (snd (await_plain w)) = study_sessions w"
    and "monthly_stats (snd (await_plain w)) = monthly_stats w"
  using world_events_frame[of "schedule w (awaits w)"
      "w\<lparr>sends := Suc (sends w), awaits := Suc (awaits w)\<rparr>"] assms
  by (simp_all add: await_plain_unfold undisturbed_def)

lemma refuse_unfold:
  "refuse x w = (Rejected x, if fst (await_plain w) then Some HTTPException else None,
                 snd (await_plain w))"
  by (simp add: refuse_def split_def)

lemma pomodoro_slash_with_unfold:
  "pomodoro_slash_with run itx sm bm w0 =
     (if fst (await_plain w0) then (Unacknowledged, Some HTTPException, snd (await_plain w0))
      else case user_voice itx of
        None \<Rightarrow> refuse NotInVoice (snd (await_plain w0))
      | Some c \<Rightarrow>
          if non_bot_members (snd (await_plain w0)) c = []
            then refuse ChannelEmpty (snd (await_plain w0))
          else if channel_id c \<in> dom (active_sessions (snd (await_plain w0)))
            then refuse Conflict (snd (await_plain w0))
          else if sm > 120 \<or> sm < 1 then refuse InvalidConfig (snd (await_plain w0))
          else if bm > 60 \<or> bm < 0 then refuse InvalidConfig (snd (await_plain w0))
          else (Admitted,
                fst (run (PomodoroSession c sm bm,
                          (snd (await_plain w0))\<lparr>active_sessions :=
                             (active_sessions (snd (await_plain w0)))(channel_id c \<mapsto> (sm, bm))\<rparr>)),
                if channel_id c \<in> dom (active_sessions (snd (run (PomodoroSession c sm bm,
                          (snd (await_plain w0))\<lparr>active_sessions :=
                             (active_sessions (snd (await_plain w0)))(channel_id c \<mapsto> (sm, bm))\<rparr>))))
                then (snd (run (PomodoroSession c sm bm,
                          (snd (await_plain w0))\<lparr>active_sessions :=
                             (active_sessions (snd (await_plain w0)))(channel_id c \<mapsto> (sm, bm))\<rparr>)))
                       \<lparr>active_sessions :=
                          (active_sessions (snd (run (PomodoroSession c sm bm,
                          (snd (await_plain w0))\<lparr>active_sessions :=
                             (active_sessions (snd (await_plain w0)))(channel_id c \<mapsto> (sm, bm))\<rparr>))))
                            (channel_id c := None)\<rparr>
                else snd (run (PomodoroSession c sm bm,
                          (snd (await_plain w0))\<lparr>active_sessions :=
                             (active_sessions (snd (await_plain w0)))(channel_id c \<mapsto> (sm, bm))\<rparr>))))"
  by (simp add: pomodoro_slash_with_def Let_def split_def split: option.splits)

text \<open>
  C6 (as amended). When \<^verbatim>\<open>defer\<close> raises, the command ends with that exception and has
  checked nothing. Otherwise, for a caller in a voice channel, the command checks, in
  this order and on the world as \<^verbatim>\<open>defer\<close> left it, that the channel has a non-bot
  occupant (else ChannelEmpty), that it has no active session (else Conflict) and that
  the durations are within 1..120 and 0..60 (else InvalidConfig); it answers with the
  first refusal that applies. Whenever it refuses, the command has done nothing but its
  two awaited calls, \<^verbatim>\<open>defer\<close> and the refusal message, and the exception that leaves it
  is that of the message, if any: registry and database are as before the call unless
  another task changed them during the two suspensions.
\<close>

theorem pomodoro_slash_refusals:
  assumes "user_voice itx = Some c"
  shows "(fst (await_plain w0) \<longrightarrow>
            pomodoro_slash_with run itx sm bm w0
              = (Unacknowledged, Some HTTPException, snd (await_plain w0)))
       \<and> (\<not> fst (await_plain w0) \<longrightarrow>
            (non_bot_members (snd (await_plain w0)) c = []
               \<longrightarrow> fst (pomodoro_slash_with run itx sm bm w0) = Rejected ChannelEmpty)
          \<and> (non_bot_members (snd (await_plain w0)) c \<noteq> []
               \<and> channel_id c \<in> dom (active_sessions (snd (await_plain w0)))
               \<longrightarrow> fst (pomodoro_slash_with run itx sm bm w0) = Rejected Conflict)
          \<and> (non_bot_members (snd (await_plain w0)) c \<noteq> []
               \<and> channel_id c \<notin> dom (active_sessions (snd (await_plain w0)))
               \<and> (sm < 1 \<or> 120 < sm \<or> bm < 0 \<or> 60 < bm)
               \<longrightarrow> fst (pomodoro_slash_with run itx sm bm w0) = Rejected InvalidConfig))
       \<and> (\<forall>x. fst (pomodoro_slash_with run itx sm bm w0) = Rejected x \<longrightarrow>
              snd (snd (pomodoro_slash_with run itx sm bm w0))
                = snd (await_plain (snd (await_plain w0)))
            \<and> fst (snd (pomodoro_slash_with run itx sm bm w0))
                = (if fst (await_plain (snd (await_plain w0))) then Some HTTPException else None)
            \<and> (undisturbed w0 (awaits w0) \<and> undisturbed w0 (Suc (awaits w0)) \<longrightarrow>
                 active_sessions (snd (snd (pomodoro_slash_with run itx sm bm w0)))
                   = active_sessions w0
               \<and> study_sessions (snd (snd (pomodoro_slash_with run itx sm bm w0)))
                   = study_sessions w0
               \<and> monthly_stats (snd (snd (pomodoro_slash_with run itx sm bm w0)))
                   = monthly_stats w0))"
proof -
  let ?w = "snd (await_plain w0)"
  have frame: "active_sessions (snd (await_plain ?w)) = active_sessions w0
             \<and> study_sessions (snd (await_plain ?w)) = study_sessions w0
             \<and> monthly_stats (snd (await_plain ?w)) = monthly_stats w0"
    if u: "undisturbed w0 (awaits w0) \<and> undisturbed w0 (Suc (awaits w0))"
  proof -
    have "undisturbed ?w (awaits ?w)"
      using u by (simp add: undisturbed_def await_plain_counters)
    from await_plain_frame[OF this] await_plain_frame[of w0] u show ?thesis by simp
  qed
  show ?thesis
    using assms frame
    by (auto simp: pomodoro_slash_with_unfold refuse_unfold)
qed

text \<open>
  C6 (as stated) fails: with a study duration of 0 on an occupied channel that already has
  an active session, the command answers Conflict, not InvalidConfig.
\<close>

theorem pomodoro_slash_conflict_first:
  "fst (pomodoro_slash \<lparr>user_voice = Some library\<rparr> 0 5 busy_world) = Rejected Conflict"
  by (simp add: pomodoro_slash_def pomodoro_slash_with_unfold refuse_unfold busy_world_def
      open_world_def world0_def await_plain_unfold non_bot_members_def library_def alice_def
      bob_def)

lemma no_conflict_when_free:
  assumes "user_voice itx = Some c" and "channel_id c \<notin> dom (active_sessions w)"
      and "undisturbed w (awaits w)"
  shows "fst (pomodoro_slash_with run itx sm bm w) \<noteq> Rejected Conflict"
  using assms(1,2) await_plain_frame(1)[OF assms(3)]
  by (auto simp: pomodoro_slash_with_unfold refuse_unfold)

text \<open>
  C8. Once a session is admitted, whatever the awaited session call does (return, return
  early, raise) and whatever other tasks do to the registry meanwhile, the command ends
  with the outcome of that call and with no handle for its channel in the registry; the
  handles of the other channels are as the call left them; and a later command for the
  same channel is not refused with Conflict, unless another task registers a session
  while that command is suspended in its \<^verbatim>\<open>defer\<close>.
\<close>

theorem registry_cleanup:
  assumes "user_voice itx = Some c"
      and "\<not> fst (await_plain w0)"
      and "non_bot_members (snd (await_plain w0)) c \<noteq> []"
      and "channel_id c \<notin> dom (active_sessions (snd (await_plain w0)))"
      and "1 \<le> sm" and "sm \<le> 120" and "0 \<le> bm" and "bm \<le> 60"
  shows "fst (pomodoro_slash_with run itx sm bm w0) = Admitted
       \<and> fst (snd (pomodoro_slash_with run itx sm bm w0)) =
           fst (run (PomodoroSession c sm bm,
                     (snd (await_plain w0))\<lparr>active_sessions :=
                        (active_sessions (snd (await_plain w0)))(channel_id c \<mapsto> (sm, bm))\<rparr>))
       \<and> channel_id c \<notin> dom (active_sessions (snd (snd (pomodoro_slash_with run itx sm bm w0))))
       \<and> (\<forall>k. k \<noteq> channel_id c \<longrightarrow>
             active_sessions (snd (snd (pomodoro_slash_with run itx sm bm w0))) k =
             active_sessions (snd (run (PomodoroSession c sm bm,
                     (snd (await_plain w0))\<lparr>active_sessions :=
                        (active_sessions (snd (await_plain w0)))(channel_id c \<mapsto> (sm, bm))\<rparr>))) k)
       \<and> (undisturbed (snd (snd (pomodoro_slash_with run itx sm bm w0)))
             (awaits (snd (snd (pomodoro_slash_with run itx sm bm w0)))) \<longrightarrow>
           fst (pomodoro_slash_with run' itx sm' bm'
                  (snd (snd (pomodoro_slash_with run itx sm bm w0)))) \<noteq> Rejected Conflict)"
proof -
  let ?w = "snd (await_plain w0)"
  let ?w1 = "?w\<lparr>active_sessions := (active_sessions ?w)(channel_id c \<mapsto> (sm, bm))\<rparr>"
  let ?r = "run (PomodoroSession c sm bm, ?w1)"
  let ?w3 = "if channel_id c \<in> dom (active_sessions (snd ?r))
             then (snd ?r)\<lparr>active_sessions := (active_sessions (snd ?r))(channel_id c := None)\<rparr>
             else snd ?r"
  have eq: "pomodoro_slash_with run itx sm bm w0 = (Admitted, fst ?r, ?w3)"
    using assms by (simp add: pomodoro_slash_with_unfold)
  have gone: "channel_id c \<notin> dom (active_sessions ?w3)"
    by auto
  have others: "\<forall>k. k \<noteq> channel_id c \<longrightarrow> active_sessions ?w3 k = active_sessions (snd ?r) k"
    by auto
  have again: "undisturbed ?w3 (awaits ?w3) \<longrightarrow>
                 fst (pomodoro_slash_with run' itx sm' bm' ?w3) \<noteq> Rejected Conflict"
    using no_conflict_when_free[OF assms(1) gone] by blast
  show ?thesis
    unfolding eq fst_conv snd_conv using gone others again by blast
qed

lemma await_open_world:
  "non_bot_members (snd (await_plain open_world)) library = [alice, bob]"
  "active_sessions (snd (await_plain open_world)) = Map.empty"
  "active_sessions open_world = Map.empty"
  "fst (await_plain open_world) = False"
  "undisturbed open_world n"
  by (simp_all add: await_plain_unfold non_bot_members_def open_world_def world0_def
      library_def alice_def bob_def undisturbed_def)

theorem pomodoro_slash_refusals_witness:
  "fst (pomodoro_slash_with session_task \<lparr>user_voice = Some library\<rparr> 0 5 open_world)
     = Rejected InvalidConfig
   \<and> active_sessions (snd (snd (pomodoro_slash_with session_task \<lparr>user_voice = Some library\<rparr> 0 5
                             open_world))) = active_sessions open_world"
proof -
  have uv: "user_voice \<lparr>user_voice = Some library\<rparr> = Some library" by simp
  note r = pomodoro_slash_refusals [OF uv, of open_world session_task 0 5]
  from r have a: "fst (pomodoro_slash_with session_task \<lparr>user_voice = Some library\<rparr> 0 5
                         open_world) = Rejected InvalidConfig"
    by (simp add: await_open_world)
  have u: "undisturbed open_world (awaits open_world)
           \<and> undisturbed open_world (Suc (awaits open_world))"
    by (simp add: await_open_world(5))
  from r[THEN conjunct2, THEN conjunct2, rule_format, OF a] u
  have "active_sessions (snd (snd (pomodoro_slash_with session_task
          \<lparr>user_voice = Some library\<rparr> 0 5 open_world))) = active_sessions open_world"
    by blast
  with a show ?thesis by simp
qed

theorem registry_cleanup_witness:
  "fst (snd (pomodoro_slash_with (\<lambda>sw. (Some HTTPException, snd sw))
          \<lparr>user_voice = Some library\<rparr> 25 5 open_world)) = Some HTTPException
   \<and> channel_id library \<notin> dom (active_sessions (snd (snd (pomodoro_slash_with
          (\<lambda>sw. (Some HTTPException, snd sw)) \<lparr>user_voice = Some library\<rparr> 25 5 open_world))))"
  using registry_cleanup [of "\<lparr>user_voice = Some library\<rparr>" library open_world 25 5
      "\<lambda>sw. (Some HTTPException, snd sw)" session_task 25 5]
  by (simp add: await_open_world)

section \<open>File names of session records\<close>

lemma lt10_cases:
  "d < (10::nat) \<Longrightarrow> d = 0 \<or> d = 1 \<or> d = 2 \<or> d = 3 \<or> d = 4 \<or> d = 5 \<or> d = 6 \<or> d = 7 \<or> d = 8 \<or> d = 9"
  by arith

lemma digit_char_values:
  "digit_char 0 = CHR ''0''" "digit_char 1 = CHR ''1''" "digit_char 2 = CHR ''2''"
  "digit_char 3 = CHR ''3''" "digit_char 4 = CHR ''4''" "digit_char 5 = CHR ''5''"
  "digit_char 6 = CHR ''6''" "digit_char 7 = CHR ''7''" "digit_char 8 = CHR ''8''"
  "digit_char 9 = CHR ''9''" "digit_char (Suc 0) = CHR ''1''"
  by (simp_all add: digit_char_def)

lemma digit_char_is_digit: "d < 10 \<Longrightarrow> is_digit (digit_char d)"
  using lt10_cases[of d] by (auto simp: digit_char_values is_digit_def)

lemma digit_char_inj: "a < 10 \<Longrightarrow> b < 10 \<Longrightarrow> digit_char a = digit_char b \<Longrightarrow> a = b"
  using lt10_cases[of a] lt10_cases[of b] by (auto simp: digit_char_values)

lemma str_nat_digits: "\<forall>c \<in> set (str_nat n). is_digit c"
proof (induction n rule: str_nat.induct)
  case (1 n)
  show ?case
  proof (cases "n < 10")
    case True
    then show ?thesis by (subst str_nat.simps) (simp add: digit_char_is_digit)
  next
    case False
    then have "\<forall>c \<in> set (str_nat (n div 10)). is_digit c" by (rule 1)
    with False show ?thesis by (subst str_nat.simps) (simp add: digit_char_is_digit)
  qed
qed

lemma str_nat_nonempty: "str_nat n \<noteq> []"
  by (subst str_nat.simps) simp

lemma str_nat_inj: "str_nat a = str_nat b \<Longrightarrow> a = b"
proof (induction a arbitrary: b rule: str_nat.induct)
  case (1 a)
  show ?case
  proof (cases "a < 10")
    case True
    note a = this
    show ?thesis
    proof (cases "b < 10")
      case True
      with a 1(2) show ?thesis
        by (simp add: str_nat.simps[of a] str_nat.simps[of b] digit_char_inj)
    next
      case False
      with a 1(2) show ?thesis
        using str_nat_nonempty[of "b div 10"]
        by (simp add: str_nat.simps[of a] str_nat.simps[of b])
    qed
  next
    case False
    note a = this
    show ?thesis
    proof (cases "b < 10")
      case True
      with a 1(2) show ?thesis
        using str_nat_nonempty[of "a div 10"]
        by (simp add: str_nat.simps[of a] str_nat.simps[of b])
    next
      case False
      with a 1(2) have e: "str_nat (a div 10) = str_nat (b div 10)"
        and d: "digit_char (a mod 10) = digit_char (b mod 10)"
        by (simp_all add: str_nat.simps[of a] str_nat.simps[of b])
      from 1(1)[OF a e] have "a div 10 = b div 10" .
      moreover from d have "a mod 10 = b mod 10" by (simp add: digit_char_inj)
      ultimately show ?thesis by (metis div_mult_mod_eq)
    qed
  qed
qed

lemma underscore_not_digit: "\<not> is_digit CHR ''_''" "\<not> is_digit CHR ''-''" "\<not> is_digit CHR ''.''"
  by (simp_all add: is_digit_def)

lemma pad2_digits: "\<forall>c \<in> set (pad2 n). is_digit c"
  using str_nat_digits[of n] by (simp add: pad2_def is_digit_def)

lemma str_nat_small: "n < 10 \<Longrightarrow> str_nat n = [digit_char n]"
  by (subst str_nat.simps) simp

lemma str_nat_two: "10 \<le> n \<Longrightarrow> n < 100 \<Longrightarrow> str_nat n = [digit_char (n div 10), digit_char (n mod 10)]"
  by (subst str_nat.simps) (simp add: str_nat_small)

lemma pad2_two: "n < 100 \<Longrightarrow> pad2 n = [digit_char (n div 10), digit_char (n mod 10)]"
  by (cases "n < 10") (simp_all add: pad2_def str_nat_small str_nat_two digit_char_values)

lemma pad2_length: "n < 100 \<Longrightarrow> length (pad2 n) = 2"
  by (simp add: pad2_two)

lemma pad2_inj: "a < 100 \<Longrightarrow> b < 100 \<Longrightarrow> pad2 a = pad2 b \<Longrightarrow> a = b"
proof -
  assume a: "a < 100" and b: "b < 100" and e: "pad2 a = pad2 b"
  from e have "digit_char (a div 10) = digit_char (b div 10)"
    and "digit_char (a mod 10) = digit_char (b mod 10)"
    by (simp_all add: pad2_two a b)
  then have "a div 10 = b div 10" and "a mod 10 = b mod 10"
    using a b by (simp_all add: digit_char_inj)
  then show ?thesis by (metis div_mult_mod_eq)
qed

lemma str_nat_length_le: "n < 10 ^ k \<Longrightarrow> 0 < k \<Longrightarrow> length (str_nat n) \<le> k"
proof (induction n arbitrary: k rule: str_nat.induct)
  case (1 n)
  show ?case
  proof (cases "n < 10")
    case True
    with 1(3) show ?thesis by (simp add: str_nat_small)
  next
    case False
    have "k \<noteq> 1" using 1(2) False by auto
    with 1(3) obtain j where k: "k = Suc j" and j: "0 < j" by (cases k) auto
    from 1(2) have "n < 10 ^ j * 10" unfolding k by simp
    then have "n div 10 < 10 ^ j" by (rule less_mult_imp_div_less)
    from 1(1)[OF False this j] have "length (str_nat (n div 10)) \<le> j" .
    then show ?thesis unfolding k str_nat.simps[of n] using False by simp
  qed
qed

lemma str_nat_length_gt: "10 ^ k \<le> n \<Longrightarrow> k < length (str_nat n)"
proof (induction n arbitrary: k rule: str_nat.induct)
  case (1 n)
  show ?case
  proof (cases k)
    case 0
    then show ?thesis using str_nat_nonempty[of n] by simp
  next
    case (Suc j)
    have "(1::nat) \<le> 10 ^ j" by simp
    then have "(10::nat) \<le> 10 ^ Suc j" by simp
    with 1(2) have n10: "\<not> n < 10" unfolding Suc by linarith
    from 1(2) have "10 ^ j * 10 \<le> n" unfolding Suc by simp
    then have "10 ^ j \<le> n div 10" by (simp add: less_eq_div_iff_mult_less_eq)
    from 1(1)[OF n10 this] have "j < length (str_nat (n div 10))" .
    then show ?thesis unfolding Suc str_nat.simps[of n] using n10 by simp
  qed
qed

lemma split_at_separator:
  "u \<notin> set a \<Longrightarrow> a @ u # r = ps @ u # q \<Longrightarrow>
     (ps = a \<and> q = r) \<or> (\<exists>ps'. ps = a @ u # ps' \<and> r = ps' @ u # q)"
proof (induction a arbitrary: ps)
  case Nil
  then show ?case by (cases ps) auto
next
  case (Cons h t)
  show ?case
  proof (cases ps)
    case Nil
    with Cons.prems show ?thesis by simp
  next
    case (Cons p ps')
    with Cons.prems have "p = h" and "t @ u # r = ps' @ u # q" and "u \<notin> set t" by simp_all
    from Cons.IH[OF this(3,2)] show ?thesis unfolding Cons \<open>p = h\<close> by auto
  qed
qed

lemma first_field:
  assumes "u \<notin> set x" and "u \<notin> set b" and "x @ u # s = b @ u # t"
  shows "x = b \<and> s = t"
  using split_at_separator[OF assms(2) assms(3)[symmetric]] assms(1) by auto

lemma sublist_field:
  assumes x: "u \<notin> set x" and a: "u \<notin> set a" and b: "u \<notin> set b"
      and c: "u \<notin> set c" and d: "u \<notin> set d"
  shows "sublist (u # x @ [u]) (a @ u # b @ u # c @ u # d) \<longleftrightarrow> x = b \<or> x = c"
proof
  assume "x = b \<or> x = c"
  then show "sublist (u # x @ [u]) (a @ u # b @ u # c @ u # d)"
  proof
    assume "x = b"
    then have "a @ u # b @ u # c @ u # d = a @ (u # x @ [u]) @ (c @ u # d)" by simp
    then show ?thesis unfolding sublist_def by blast
  next
    assume "x = c"
    then have "a @ u # b @ u # c @ u # d = (a @ u # b) @ (u # x @ [u]) @ d" by simp
    then show ?thesis unfolding sublist_def by blast
  qed
next
  assume "sublist (u # x @ [u]) (a @ u # b @ u # c @ u # d)"
  then obtain ps ss where e: "a @ u # (b @ u # c @ u # d) = ps @ u # (x @ u # ss)"
    by (auto simp: sublist_def)
  from split_at_separator[OF a e] show "x = b \<or> x = c"
  proof
    assume "ps = a \<and> x @ u # ss = b @ u # c @ u # d"
    then have "x @ u # ss = b @ u # (c @ u # d)" by simp
    from first_field[OF x b this] show ?thesis by simp
  next
    assume "\<exists>ps'. ps = a @ u # ps' \<and> b @ u # c @ u # d = ps' @ u # x @ u # ss"
    then obtain ps' where e2: "b @ u # (c @ u # d) = ps' @ u # (x @ u # ss)" by auto
    from split_at_separator[OF b e2] show ?thesis
    proof
      assume "ps' = b \<and> x @ u # ss = c @ u # d"
      then have "x @ u # ss = c @ u # d" by simp
      from first_field[OF x c this] show ?thesis by simp
    next
      assume "\<exists>p2. ps' = b @ u # p2 \<and> c @ u # d = p2 @ u # x @ u # ss"
      then obtain p2 where e3: "c @ u # d = p2 @ u # (x @ u # ss)" by auto
      from split_at_separator[OF c e3] d show ?thesis by auto
    qed
  qed
qed

lemma prefix_two_fields:
  assumes "u \<notin> set y" and "u \<notin> set y'" and "length m = length m'"
  shows "prefix (y @ u # m) (y' @ u # m' @ r) \<longleftrightarrow> y = y' \<and> m = m'"
proof
  assume "prefix (y @ u # m) (y' @ u # m' @ r)"
  then obtain zs where "y' @ u # (m' @ r) = y @ u # (m @ zs)" by (auto simp: prefix_def)
  from first_field[OF assms(2,1) this] assms(3) show "y = y' \<and> m = m'" by simp
next
  assume "y = y' \<and> m = m'"
  then show "prefix (y @ u # m) (y' @ u # m' @ r)" by (simp add: prefix_def)
qed

lemma digits_no_sep:
  "\<forall>c \<in> set xs. is_digit c \<Longrightarrow> CHR ''_'' \<notin> set xs \<and> CHR ''-'' \<notin> set xs"
  using underscore_not_digit by auto

lemma date_stamp_digits: "\<forall>c \<in> set (date_stamp t). is_digit c"
  using str_nat_digits pad2_digits by (auto simp: date_stamp_def)

lemma time_stamp_digits: "\<forall>c \<in> set (time_stamp t). is_digit c"
  using pad2_digits by (auto simp: time_stamp_def)

lemma date_stamp_length: "valid_datetime t \<Longrightarrow> length (date_stamp t) \<le> 8"
proof -
  assume v: "valid_datetime t"
  then have "dt_year t < 10 ^ 4" by (simp add: valid_datetime_def)
  then have "length (str_nat (dt_year t)) \<le> 4" by (rule str_nat_length_le) simp
  moreover from v have "length (pad2 (dt_month t)) = 2" "length (pad2 (dt_day t)) = 2"
    by (simp_all add: valid_datetime_def pad2_length)
  ultimately show ?thesis by (simp add: date_stamp_def)
qed

lemma session_filename_fields:
  "session_filename d ts =
     (str_nat (doc_year d) @ CHR ''-'' # pad2 (doc_month d) @ CHR ''-'' # pad2 (dt_day (doc_session_start d)))
       @ CHR ''_'' # doc_user_id d @ CHR ''_'' # date_stamp ts @ CHR ''_'' # (time_stamp ts @ ''.pkl'')"
  by (simp add: session_filename_def strftime_stamp_def)

lemma session_filename_prefix:
  "session_filename d ts =
     str_nat (doc_year d) @ CHR ''-'' # pad2 (doc_month d) @
       (CHR ''-'' # pad2 (dt_day (doc_session_start d)) @ CHR ''_'' # doc_user_id d @ CHR ''_'' #
          strftime_stamp ts @ ''.pkl'')"
  by (simp add: session_filename_def)

lemma session_filename_suffix: "suffix ''.pkl'' (session_filename d ts)"
  unfolding session_filename_def suffix_def by (metis append_assoc)

lemma user_file_selected_iff:
  assumes d: "doc_ok d" and ts: "valid_datetime ts"
      and y: "0 < y" and m: "1 \<le> m" "m \<le> 12"
      and uid: "100000000 \<le> user_id"
  shows "user_file_selected user_id y m (session_filename d ts)
           \<longleftrightarrow> doc_user_id d = str_nat user_id \<and> doc_year d = y \<and> doc_month d = m"
proof -
  let ?a = "str_nat (doc_year d) @ CHR ''-'' # pad2 (doc_month d) @ CHR ''-'' # pad2 (dt_day (doc_session_start d))"
  have a: "CHR ''_'' \<notin> set ?a"
    using digits_no_sep[OF str_nat_digits] digits_no_sep[OF pad2_digits] by auto
  have x: "CHR ''_'' \<notin> set (str_nat user_id)"
    using digits_no_sep[OF str_nat_digits] by simp
  have b: "CHR ''_'' \<notin> set (doc_user_id d)" using d by (simp add: doc_ok_def)
  have c: "CHR ''_'' \<notin> set (date_stamp ts)"
    using digits_no_sep[OF date_stamp_digits] by simp
  have e: "CHR ''_'' \<notin> set (time_stamp ts @ ''.pkl'')"
    using digits_no_sep[OF time_stamp_digits] by auto
  have "10 ^ 8 \<le> user_id" using uid by simp
  then have "8 < length (str_nat user_id)" by (rule str_nat_length_gt)
  with date_stamp_length[OF ts] have nd: "str_nat user_id \<noteq> date_stamp ts" by auto
  have sub: "sublist (''_'' @ str_nat user_id @ ''_'') (session_filename d ts)
               \<longleftrightarrow> doc_user_id d = str_nat user_id"
    unfolding session_filename_fields
    using sublist_field[OF x a b c e] nd by auto
  have len: "length (pad2 m) = length (pad2 (doc_month d))"
    using m d by (simp add: pad2_length doc_ok_def)
  have "prefix (str_nat y @ ''-'' @ pad2 m) (session_filename d ts)
          \<longleftrightarrow> str_nat y = str_nat (doc_year d) \<and> pad2 m = pad2 (doc_month d)"
    unfolding session_filename_prefix
    using prefix_two_fields[OF _ _ len, of "CHR ''-''" "str_nat y" "str_nat (doc_year d)"]
      digits_no_sep[OF str_nat_digits] by simp
  moreover have "str_nat y = str_nat (doc_year d) \<longleftrightarrow> doc_year d = y"
    using str_nat_inj by auto
  moreover have "pad2 m = pad2 (doc_month d) \<longleftrightarrow> doc_month d = m"
    using pad2_inj[of m "doc_month d"] m d by (auto simp: doc_ok_def)
  ultimately have pre: "prefix (str_nat y @ ''-'' @ pad2 m) (session_filename d ts)
          \<longleftrightarrow> doc_year d = y \<and> doc_month d = m" by simp
  show ?thesis
    unfolding user_file_selected_def using sub pre session_filename_suffix y m by simp
qed

section \<open>The monthly total of a user\<close>

lemma selected_docs:
  assumes "\<forall>(name, f) \<in> set files. \<forall>d. f = Pickled d \<longrightarrow>
             (\<exists>ts. name = session_filename d ts \<and> doc_ok d \<and> valid_datetime ts)"
      and "0 < y" and "1 \<le> m" and "m \<le> 12" and "100000000 \<le> user_id"
  shows "concat (map (\<lambda>(name, f). if user_file_selected user_id y m name then unpickled f else [])
                     files)
         = filter (\<lambda>d. doc_user_id d = str_nat user_id \<and> doc_year d = y \<and> doc_month d = m)
                  (concat (map (\<lambda>(name, f). unpickled f) files))"
  using assms(1)
proof (induction files)
  case Nil
  then show ?case by simp
next
  case (Cons nf files)
  obtain name f where nf: "nf = (name, f)" by (cases nf)
  have rest: "\<forall>(name, f) \<in> set files. \<forall>d. f = Pickled d \<longrightarrow>
             (\<exists>ts. name = session_filename d ts \<and> doc_ok d \<and> valid_datetime ts)"
    using Cons.prems by simp
  show ?case
  proof (cases f)
    case Corrupt
    then show ?thesis unfolding nf using Cons.IH[OF rest] by simp
  next
    case (Pickled d)
    with Cons.prems nf obtain ts where
      n: "name = session_filename d ts" and d: "doc_ok d" and ts: "valid_datetime ts"
      by auto
    note sel = user_file_selected_iff[OF d ts assms(2,3,4,5)]
    show ?thesis
      unfolding nf using Cons.IH[OF rest] sel by (simp add: Pickled n)
  qed
qed

lemma get_user_monthly_total_docs:
  assumes "session_files_ok w" and "0 < fst mid" and "1 \<le> snd mid" and "snd mid \<le> 12"
      and "100000000 \<le> user_id"
  shows "get_user_monthly_total user_id mid w
           = sum_list (map duration_minutes (user_month_docs user_id mid w))"
proof -
  obtain y m where mid: "mid = (y, m)" by (cases mid)
  from assms(1) have files: "\<forall>(name, f) \<in> set (study_sessions w). \<forall>d. f = Pickled d \<longrightarrow>
             (\<exists>ts. name = session_filename d ts \<and> doc_ok d \<and> valid_datetime ts)"
    by (simp add: session_files_ok_def)
  from selected_docs[OF files, of y m user_id] assms(2-5)
  have "get_user_sessions user_id y m w = user_month_docs user_id mid w"
    by (simp add: mid get_user_sessions_def user_month_docs_def persisted_docs_def)
  then show ?thesis by (simp add: get_user_monthly_total_def mid)
qed

lemma upserted_entry:
  assumes "ind \<in> set (top_individuals (fold_stats org minutes user_id username tot st))"
      and "ind_user_id ind = str_nat user_id"
  shows "ind_minutes ind = tot"
proof -
  from assms(1) have "ind \<in> set (filter (\<lambda>ind. ind_user_id ind \<noteq> str_nat user_id) (top_individuals st) @
        [\<lparr>ind_user_id = str_nat user_id, ind_username = username,
          ind_org = org, ind_minutes = tot\<rparr>])"
    unfolding fold_stats_top by (auto dest: in_set_takeD)
  with assms(2) show ?thesis by auto
qed

lemma upserted_member:
  assumes "length (top_individuals st) < 100"
  shows "\<lparr>ind_user_id = str_nat user_id, ind_username = username, ind_org = org,
          ind_minutes = tot\<rparr>
           \<in> set (top_individuals (fold_stats org minutes user_id username tot st))"
proof -
  let ?xs = "filter (\<lambda>ind. ind_user_id ind \<noteq> str_nat user_id) (top_individuals st) @
        [\<lparr>ind_user_id = str_nat user_id, ind_username = username,
          ind_org = org, ind_minutes = tot\<rparr>]"
  have "length (filter (\<lambda>ind. ind_user_id ind \<noteq> str_nat user_id) (top_individuals st))
          \<le> length (top_individuals st)"
    by (rule length_filter_le)
  moreover have "length (sort_key (\<lambda>x. - ind_minutes x) ?xs)
          = Suc (length (filter (\<lambda>ind. ind_user_id ind \<noteq> str_nat user_id) (top_individuals st)))"
    by simp
  ultimately have "length (sort_key (\<lambda>x. - ind_minutes x) ?xs) \<le> 100"
    using assms by linarith
  then have "take 100 (sort_key (\<lambda>x. - ind_minutes x) ?xs) = sort_key (\<lambda>x. - ind_minutes x) ?xs"
    by simp
  then show ?thesis unfolding fold_stats_top by simp
qed

text \<open>
  C2. In a session directory whose readable files were written by \<open>save_study_session\<close>,
  for a user id of at least nine digits and a valid clock reading, a call of
  \<open>update_monthly_stats\<close> that finds the aggregate \<open>st\<close> of the current month (the
  default one when the month has no file) and whose write succeeds returns \<open>True\<close> and
  stores an aggregate whose \<open>top_individuals\<close> is the list of \<open>st\<close> without the entries
  of that user, followed by one entry for the user whose minutes are the sum of
  \<open>duration_minutes\<close> over the user's persisted documents of that month, sorted by
  descending minutes and cut to 100. The entry is in the stored list when \<open>st\<close> lists
  fewer than 100 entries, and no entry of the user in the stored list has other minutes.
  The minutes are a function of the session directory alone: the aggregate loaded, and so
  the order of earlier folds, has no part in them.
\<close>

theorem upserted_minutes_recomputed:
  assumes files: "session_files_ok w"
      and uid: "100000000 \<le> user_id"
      and t: "valid_datetime (clock w (reads w))"
      and st: "stored_stats w (dt_year (clock w (reads w)), dt_month (clock w (reads w)))
                 (clock w (Suc (reads w))) st"
      and wr: "disk w (writes w) = Written"
  shows "fst (update_monthly_stats org minutes user_id username w)
       \<and> (\<exists>st'. monthly_stats (snd (update_monthly_stats org minutes user_id username w))
                   (month_key (dt_year (clock w (reads w)), dt_month (clock w (reads w))))
                   = Some (Pickled st')
            \<and> top_individuals st' =
                take 100 (sort_key (\<lambda>x. - ind_minutes x)
                  (filter (\<lambda>ind. ind_user_id ind \<noteq> str_nat user_id) (top_individuals st) @
                   [\<lparr>ind_user_id = str_nat user_id, ind_username = username, ind_org = org,
                     ind_minutes =
                       sum_list (map duration_minutes
                         (user_month_docs user_id
                            (dt_year (clock w (reads w)), dt_month (clock w (reads w))) w))\<rparr>]))
            \<and> (length (top_individuals st) < 100 \<longrightarrow>
                 \<lparr>ind_user_id = str_nat user_id, ind_username = username, ind_org = org,
                  ind_minutes =
                    sum_list (map duration_minutes
                      (user_month_docs user_id
                         (dt_year (clock w (reads w)), dt_month (clock w (reads w))) w))\<rparr>
                   \<in> set (top_individuals st'))
            \<and> (\<forall>ind \<in> set (top_individuals st').
                  ind_user_id ind = str_nat user_id \<longrightarrow>
                  ind_minutes ind =
                    sum_list (map duration_minutes
                      (user_month_docs user_id
                         (dt_year (clock w (reads w)), dt_month (clock w (reads w))) w))))"
proof -
  let ?mid = "(dt_year (clock w (reads w)), dt_month (clock w (reads w)))"
  let ?sum = "sum_list (map duration_minutes (user_month_docs user_id ?mid w))"
  let ?u = "update_monthly_stats org minutes user_id username w"
  have tot: "get_user_monthly_total user_id ?mid w = ?sum"
    using files uid t by (intro get_user_monthly_total_docs) (simp_all add: valid_datetime_def)
  let ?st' = "fold_stats org minutes user_id username ?sum st"
  from update_monthly_stats_outcome(1)[OF st, of org minutes user_id username] wr
  have ok: "fst ?u" by simp
  from update_monthly_stats_outcome(2)[OF st, of org minutes user_id username] wr tot
  obtain tm where m: "monthly_stats (snd ?u) (month_key ?mid)
                       = Some (Pickled (?st'\<lparr>last_updated := tm\<rparr>))"
    by auto
  have a: "top_individuals (?st'\<lparr>last_updated := tm\<rparr>) =
             take 100 (sort_key (\<lambda>x. - ind_minutes x)
               (filter (\<lambda>ind. ind_user_id ind \<noteq> str_nat user_id) (top_individuals st) @
                [\<lparr>ind_user_id = str_nat user_id, ind_username = username, ind_org = org,
                  ind_minutes = ?sum\<rparr>]))"
    by (simp add: fold_stats_top)
  have b: "length (top_individuals st) < 100 \<longrightarrow>
             \<lparr>ind_user_id = str_nat user_id, ind_username = username, ind_org = org,
              ind_minutes = ?sum\<rparr> \<in> set (top_individuals (?st'\<lparr>last_updated := tm\<rparr>))"
    using upserted_member[of st user_id username org ?sum minutes] by simp
  have c: "\<forall>ind \<in> set (top_individuals (?st'\<lparr>last_updated := tm\<rparr>)).
             ind_user_id ind = str_nat user_id \<longrightarrow> ind_minutes ind = ?sum"
    using upserted_entry[of _ org minutes user_id username ?sum st] by simp
  from m a b c have "\<exists>st'. monthly_stats (snd ?u) (month_key ?mid) = Some (Pickled st')
            \<and> top_individuals st' =
                take 100 (sort_key (\<lambda>x. - ind_minutes x)
                  (filter (\<lambda>ind. ind_user_id ind \<noteq> str_nat user_id) (top_individuals st) @
                   [\<lparr>ind_user_id = str_nat user_id, ind_username = username, ind_org = org,
                     ind_minutes = ?sum\<rparr>]))
            \<and> (length (top_individuals st) < 100 \<longrightarrow>
                 \<lparr>ind_user_id = str_nat user_id, ind_username = username, ind_org = org,
                  ind_minutes = ?sum\<rparr> \<in> set (top_individuals st'))
            \<and> (\<forall>ind \<in> set (top_individuals st').
                  ind_user_id ind = str_nat user_id \<longrightarrow> ind_minutes ind = ?sum)"
    by (intro exI[of _ "?st'\<lparr>last_updated := tm\<rparr>"] conjI)
  with ok show ?thesis by (rule conjI)
qed

lemma alist_update_set:
  "(n, f) \<in> set (AList.update k v al) \<Longrightarrow> (n, f) = (k, v) \<or> (n, f) \<in> set al"
  by (induction al) (auto split: if_splits)

lemma save_study_session_files_ok:
  assumes "session_files_ok w" and "doc_ok d" and "valid_datetime (clock w (reads w))"
  shows "session_files_ok (snd (save_study_session d w))"
proof (cases "disk w (writes w)")
  case OpenFailed
  then show ?thesis using assms(1)
    by (simp add: save_study_session_def now_def disk_write_def Let_def session_files_ok_def)
next
  case Written
  then have s: "study_sessions (snd (save_study_session d w)) =
                  AList.update (session_filename d (clock w (reads w))) (Pickled d) (study_sessions w)"
    by (simp add: save_study_session_def now_def disk_write_def Let_def)
  show ?thesis
    unfolding session_files_ok_def s
    using assms alist_update_set[of _ _ "session_filename d (clock w (reads w))" "Pickled d" "study_sessions w"]
    by (fastforce simp: session_files_ok_def)
next
  case DumpFailed
  then have s: "study_sessions (snd (save_study_session d w)) =
                  AList.update (session_filename d (clock w (reads w))) Corrupt (study_sessions w)"
    by (simp add: save_study_session_def now_def disk_write_def Let_def)
  show ?thesis
    unfolding session_files_ok_def s
    using assms(1) alist_update_set[of _ _ "session_filename d (clock w (reads w))" Corrupt "study_sessions w"]
    by (fastforce simp: session_files_ok_def)
qed

lemma alice_doc_saved:
  "session_files_ok (snd (save_study_session alice_doc world0))"
  "study_sessions (snd (save_study_session alice_doc world0))
     = [(session_filename alice_doc (at_time 0), Pickled alice_doc)]"
  "clock (snd (save_study_session alice_doc world0)) = (\<lambda>n. at_time (int n))"
  "reads (snd (save_study_session alice_doc world0)) = 1"
  "monthly_stats (snd (save_study_session alice_doc world0)) = Map.empty"
  "disk (snd (save_study_session alice_doc world0)) = (\<lambda>n. Written)"
proof -
  have "session_files_ok world0" by (simp add: session_files_ok_def world0_def)
  moreover have "doc_ok alice_doc"
    using digits_no_sep[OF str_nat_digits, of "member_id alice"]
    by (simp add: doc_ok_def alice_doc_def)
  moreover have "valid_datetime (clock world0 (reads world0))"
    by (simp add: world0_def at_time_def valid_datetime_def)
  ultimately show "session_files_ok (snd (save_study_session alice_doc world0))"
    by (rule save_study_session_files_ok)
qed (simp_all add: save_study_session_def now_def disk_write_def world0_def Let_def)

theorem upserted_minutes_recomputed_witness:
  "\<exists>st'. monthly_stats (snd (update_monthly_stats ''VTK'' 25 (member_id alice) ''alice''
                               (snd (save_study_session alice_doc world0))))
             (month_key (2025, 3)) = Some (Pickled st')
         \<and> top_individuals st' =
             [\<lparr>ind_user_id = str_nat (member_id alice), ind_username = ''alice'',
               ind_org = ''VTK'', ind_minutes = 25\<rparr>]"
proof -
  let ?w = "snd (save_study_session alice_doc world0)"
  have uid: "100000000 \<le> member_id alice" by (simp add: alice_def)
  have t: "valid_datetime (clock ?w (reads ?w))"
    by (simp add: alice_doc_saved at_time_def valid_datetime_def)
  have ym: "dt_year (at_time k) = 2025" "dt_month (at_time k) = 3" for k
    by (simp_all add: at_time_def)
  have st: "stored_stats ?w (dt_year (clock ?w (reads ?w)), dt_month (clock ?w (reads ?w)))
              (clock ?w (Suc (reads ?w))) (default_stats (2025, 3) (at_time 2))"
    by (simp add: stored_stats_def alice_doc_saved ym)
  have wr: "disk ?w (writes ?w) = Written" by (simp add: alice_doc_saved)
  have docs: "user_month_docs (member_id alice) (2025, 3) ?w = [alice_doc]"
    by (simp add: user_month_docs_def persisted_docs_def alice_doc_saved) (simp add: alice_doc_def)
  have d: "duration_minutes alice_doc = 25" by (simp add: alice_doc_def)
  have e: "top_individuals (default_stats (2025, 3) (at_time 2)) = []"
    by (simp add: default_stats_def)
  from upserted_minutes_recomputed [OF alice_doc_saved(1) uid t st wr, of "''VTK''" 25 "''alice''"]
  show ?thesis
    unfolding alice_doc_saved(3,4) ym docs e by (auto simp: d)
qed

end
